theory Spec2Isabelle
  imports Complex_Main "HOL-Library.Multiset"
begin

section \<open>Data model\<close>

text \<open>
  The script \<^verbatim>\<open>src/utils/data_preparation.py\<close> prepares the ECG5000 data set. Decoded text is a
  list of Unicode code points. A cell of the parsed table is a number, pandas' missing
  value, or a string (in a column that is not numeric). A parsed table always has a first
  column (the class label), so a row is its first cell and the list of the remaining ones.
\<close>

type_synonym ustring = "nat list"

datatype cell = Num rat | NaN | Str ustring

record row =
  col0 :: cell
  rest :: "cell list"

datatype error =
    ValueError
  | TypeError
  | ZeroDivisionError
  | OverflowError
  | FileNotFoundError
  | FileExistsError
  | IsADirectoryError
  | NotADirectoryError
  | ConnectionError
  | BadZipFile
  | UnicodeDecodeError
  | EmptyDataError
  | ParserError
  | IndexError

text \<open>Errors in sequence: the first one raised ends the run.\<close>

definition and_then :: "error + 'a \<Rightarrow> ('a \<Rightarrow> error + 'b) \<Rightarrow> error + 'b" where
  "and_then r f = (case r of Inl e \<Rightarrow> Inl e | Inr a \<Rightarrow> f a)"

section \<open>Python's floats\<close>

text \<open>
  A Python float is an IEEE 754 double: a finite one is given by its value (the sign of
  zero is left out), the others are the two infinities and the NaN. Every arithmetic
  operation gives the double nearest to the exact result, ties to the even mantissa;
  a result of magnitude \<open>2 ^ 1024\<close> or more after rounding is an infinity, and below
  \<open>2 ^ -1022\<close> the doubles are the multiples of \<open>2 ^ -1074\<close>.
\<close>

datatype pyfloat = Fin rat | PInf | NInf | FNaN

text \<open>\<open>ilog2 n\<close> is the position of the leading bit of \<open>n\<close>, \<open>pow2 e\<close> is \<open>2 ^ e\<close>.\<close>

function ilog2 :: "nat \<Rightarrow> nat" where
  "ilog2 n = (if n < 2 then 0 else Suc (ilog2 (n div 2)))"
  by pat_completeness auto
termination
  by (relation "measure id") auto

declare ilog2.simps [simp del]

function pow2n :: "nat \<Rightarrow> rat" where
  "pow2n n = (if n = 0 then 1
              else let h = pow2n (n div 2) in if even n then h * h else 2 * h * h)"
  by pat_completeness auto
termination
  by (relation "measure id") auto

declare pow2n.simps [simp del]

definition pow2 :: "int \<Rightarrow> rat" where
  "pow2 e = (if 0 \<le> e then pow2n (nat e) else 1 / pow2n (nat (- e)))"

text \<open>For \<open>x\<close> other than 0, the \<open>e\<close> with \<open>2 ^ e \<le> |x| < 2 ^ (e + 1)\<close>.\<close>

definition exponent :: "rat \<Rightarrow> int" where
  "exponent x =
     (if 1 \<le> \<bar>x\<bar> then int (ilog2 (nat \<lfloor>\<bar>x\<bar>\<rfloor>))
      else let j = int (ilog2 (nat \<lfloor>1 / \<bar>x\<bar>\<rfloor>))
           in if \<bar>x\<bar> * pow2 j = 1 then - j else - j - 1)"

definition round_half_even :: "rat \<Rightarrow> int" where
  "round_half_even x =
     (let f = \<lfloor>x\<rfloor>; d = x - of_int f
      in if d < 1 / 2 then f
         else if 1 / 2 < d then f + 1
         else if even f then f else f + 1)"

text \<open>
  The double nearest to a rational: 53 bits of mantissa from the leading bit on, never
  finer than \<open>2 ^ -1074\<close>. A value below \<open>2 ^ 1023\<close> cannot round to \<open>2 ^ 1024\<close>.
\<close>

definition round_double :: "rat \<Rightarrow> pyfloat" where
  "round_double x =
     (if x = 0 then Fin 0
      else
        let e = exponent x;
            q = max (e - 52) (- 1074);
            m = round_half_even (\<bar>x\<bar> / pow2 q);
            r = of_int m * pow2 q
        in if e < 1023 then Fin (if 0 < x then r else - r)
           else if pow2 1024 \<le> r then (if 0 < x then PInf else NInf)
           else Fin (if 0 < x then r else - r))"

text \<open>
  \<^verbatim>\<open>float(s)\<close> of a decimal numeral, as \<^verbatim>\<open>argparse\<close> applies it (lines 27 to 29): the
  nearest double. An \<^verbatim>\<open>int\<close> operand of a float operation is converted first, which
  raises when it is too large.
\<close>

definition py_float :: "rat \<Rightarrow> pyfloat" where
  "py_float x = round_double x"

definition int_to_float :: "nat \<Rightarrow> error + pyfloat" where
  "int_to_float n =
     (case round_double (of_nat n) of Fin r \<Rightarrow> Inr (Fin r) | _ \<Rightarrow> Inl OverflowError)"

definition fsign :: "pyfloat \<Rightarrow> int" where
  "fsign a = (case a of Fin x \<Rightarrow> (if x = 0 then 0 else if 0 < x then 1 else - 1)
                      | PInf \<Rightarrow> 1 | NInf \<Rightarrow> - 1 | FNaN \<Rightarrow> 0)"

definition inf_of_sign :: "int \<Rightarrow> pyfloat" where
  "inf_of_sign s = (if s = 0 then FNaN else if 0 < s then PInf else NInf)"

fun fsub :: "pyfloat \<Rightarrow> pyfloat \<Rightarrow> pyfloat" where
  "fsub (Fin x) (Fin y) = round_double (x - y)"
| "fsub FNaN b = FNaN"
| "fsub a FNaN = FNaN"
| "fsub PInf PInf = FNaN"
| "fsub NInf NInf = FNaN"
| "fsub PInf b = PInf"
| "fsub NInf b = NInf"
| "fsub (Fin x) PInf = NInf"
| "fsub (Fin x) NInf = PInf"

fun fmul :: "pyfloat \<Rightarrow> pyfloat \<Rightarrow> pyfloat" where
  "fmul (Fin x) (Fin y) = round_double (x * y)"
| "fmul FNaN b = FNaN"
| "fmul a FNaN = FNaN"
| "fmul a b = inf_of_sign (fsign a * fsign b)"

text \<open>Python's float division raises on a zero divisor, whatever the dividend.\<close>

fun fdiv :: "pyfloat \<Rightarrow> pyfloat \<Rightarrow> pyfloat" where
  "fdiv (Fin x) (Fin y) = round_double (x / y)"
| "fdiv FNaN b = FNaN"
| "fdiv a FNaN = FNaN"
| "fdiv (Fin x) b = Fin 0"
| "fdiv a (Fin y) = inf_of_sign (fsign a * fsign (Fin y))"
| "fdiv a b = FNaN"

definition py_div :: "pyfloat \<Rightarrow> pyfloat \<Rightarrow> error + pyfloat" where
  "py_div a b = (if b = Fin 0 then Inl ZeroDivisionError else Inr (fdiv a b))"

text \<open>Comparison: false whenever a NaN is compared.\<close>

fun fle :: "pyfloat \<Rightarrow> pyfloat \<Rightarrow> bool" where
  "fle (Fin x) (Fin y) = (x \<le> y)"
| "fle FNaN b = False"
| "fle a FNaN = False"
| "fle NInf b = True"
| "fle a PInf = True"
| "fle a b = False"

text \<open>\<^verbatim>\<open>math.ceil\<close>: an integer, or an error for a NaN or an infinity.\<close>

definition py_ceil :: "pyfloat \<Rightarrow> error + int" where
  "py_ceil a = (case a of Fin v \<Rightarrow> Inr \<lceil>v\<rceil> | FNaN \<Rightarrow> Inl ValueError | _ \<Rightarrow> Inl OverflowError)"

section \<open>The library's splitting routine\<close>

text \<open>
  \<^verbatim>\<open>train_test_split(arr, random_state = 88, test_size = t)\<close> of scikit-learn, with a
  float \<^verbatim>\<open>test_size\<close> and no \<^verbatim>\<open>train_size\<close>: the size check rejects a fraction outside
  the open unit interval, the test part has \<^verbatim>\<open>ceil(t * n)\<close> rows, computed in floats,
  the training part the other rows, and a training part that is empty is rejected.
\<close>

definition validate_shuffle_split :: "nat \<Rightarrow> pyfloat \<Rightarrow> error + (nat \<times> nat)" where
  "validate_shuffle_split n_samples test_size =
     (if fle test_size (Fin 0) \<or> fle (Fin 1) test_size then Inl ValueError
      else
        and_then (int_to_float n_samples) (\<lambda>n.
        and_then (py_ceil (fmul test_size n)) (\<lambda>n_test.
          let n_train = int n_samples - n_test
          in if n_train \<le> 0 then Inl ValueError else Inr (nat n_train, nat n_test))))"

text \<open>Positional selection of rows (\<^verbatim>\<open>_safe_indexing\<close>, \<^verbatim>\<open>iloc\<close>).\<close>

definition safe_indexing :: "'a list \<Rightarrow> nat list \<Rightarrow> 'a list" where
  "safe_indexing arr idx = map (\<lambda>i. arr ! i) idx"

text \<open>
  Without \<^verbatim>\<open>stratify\<close> the indices come from one draw \<^verbatim>\<open>rng.permutation(n)\<close> of a
  generator freshly seeded with 88: its first \<open>n_test\<close> entries are the test rows, the next
  \<open>n_train\<close> the training rows. The draw is the parameter \<open>permutation\<close>, a function of
  \<open>n\<close> alone since every call seeds its own generator. The pair returned is
  (training part, test part).
\<close>

definition train_test_split ::
  "(nat \<Rightarrow> nat list) \<Rightarrow> 'a list \<Rightarrow> pyfloat \<Rightarrow> error + ('a list \<times> 'a list)" where
  "train_test_split permutation arr test_size =
     (case validate_shuffle_split (length arr) test_size of
        Inl e \<Rightarrow> Inl e
      | Inr (n_train, n_test) \<Rightarrow>
          let p = permutation (length arr);
              ind_test = take n_test p;
              ind_train = take n_train (drop n_test p)
          in Inr (safe_indexing arr ind_train, safe_indexing arr ind_test))"

text \<open>
  With \<^verbatim>\<open>stratify = y\<close> the splitter is \<^verbatim>\<open>StratifiedShuffleSplit\<close>. It rejects labels with
  a missing value; \<^verbatim>\<open>np.unique\<close> cannot sort labels that mix numbers and strings; then a
  class with fewer than two members and a training or test part smaller than the number
  of classes are rejected. Which rows it then picks, class by class, is the parameter
  \<open>stratified\<close>: an ordering of the row positions, given the labels and the test count,
  whose first \<open>n_test\<close> entries are the test rows and whose other entries are the training
  rows.
\<close>

definition class_counts_ok :: "cell list \<Rightarrow> bool" where
  "class_counts_ok y = list_all (\<lambda>c. 2 \<le> count_list y c) (remdups y)"

definition is_Num :: "cell \<Rightarrow> bool" where
  "is_Num c = (case c of Num _ \<Rightarrow> True | _ \<Rightarrow> False)"

definition is_Str :: "cell \<Rightarrow> bool" where
  "is_Str c = (case c of Str _ \<Rightarrow> True | _ \<Rightarrow> False)"

definition train_test_split_stratify ::
  "(cell list \<Rightarrow> nat \<Rightarrow> nat list) \<Rightarrow> 'a list \<Rightarrow> pyfloat \<Rightarrow> cell list \<Rightarrow> error + ('a list \<times> 'a list)"
where
  "train_test_split_stratify stratified arr test_size y =
     (case validate_shuffle_split (length arr) test_size of
        Inl e \<Rightarrow> Inl e
      | Inr (n_train, n_test) \<Rightarrow>
          let n_classes = length (remdups y) in
          if NaN \<in> set y then Inl ValueError
          else if list_ex is_Num y \<and> list_ex is_Str y then Inl TypeError
          else if \<not> class_counts_ok y then Inl ValueError
          else if n_train < n_classes then Inl ValueError
          else if n_test < n_classes then Inl ValueError
          else
            let p = stratified y n_test;
                ind_test = take n_test p;
                ind_train = drop n_test p
            in Inr (safe_indexing arr ind_train, safe_indexing arr ind_test))"

text \<open>What the two parameters are known to be: orderings of all row positions.\<close>

definition is_permutation :: "(nat \<Rightarrow> nat list) \<Rightarrow> bool" where
  "is_permutation permutation = (\<forall>n. mset (permutation n) = mset [0..<n])"

definition is_stratified :: "(cell list \<Rightarrow> nat \<Rightarrow> nat list) \<Rightarrow> bool" where
  "is_stratified stratified = (\<forall>y k. mset (stratified y k) = mset [0..<length y])"

section \<open>The partitioner (lines 82 to 98)\<close>

record partitions =
  X_train_n :: "row list"
  X_val_n :: "row list"
  X_test_n :: "row list"
  X_val_a :: "row list"
  X_test_a :: "row list"

definition normal :: "row list \<Rightarrow> row list" where
  "normal df = filter (\<lambda>r. col0 r = Num 1) df"

definition anomaly :: "row list \<Rightarrow> row list" where
  "anomaly df = filter (\<lambda>r. col0 r \<noteq> Num 1) df"

text \<open>
  Line 92, \<^verbatim>\<open>len(X_train_n) * perc_anol_all / (1 - perc_anol_all)\<close>, and line 93,
  \<^verbatim>\<open>n_anol / len(anomaly)\<close>, in Python's order of evaluation.
\<close>

definition n_anol :: "nat \<Rightarrow> pyfloat \<Rightarrow> error + pyfloat" where
  "n_anol len_X_train_n perc_anol_all =
     and_then (int_to_float len_X_train_n) (\<lambda>l.
       py_div (fmul l perc_anol_all) (fsub (Fin 1) perc_anol_all))"

definition perc_anol_val_a :: "pyfloat \<Rightarrow> nat \<Rightarrow> error + pyfloat" where
  "perc_anol_val_a n len_anomaly = and_then (int_to_float len_anomaly) (\<lambda>l. py_div n l)"

text \<open>
  The three percentages are given as the numbers written on the command line;
  \<^verbatim>\<open>argparse\<close> makes floats of them.
\<close>

definition partitioner ::
  "(nat \<Rightarrow> nat list) \<Rightarrow> (cell list \<Rightarrow> nat \<Rightarrow> nat list) \<Rightarrow>
   row list \<Rightarrow> rat \<Rightarrow> rat \<Rightarrow> rat \<Rightarrow> error + partitions" where
  "partitioner permutation stratified df perc_tr_n perc_val_n perc_val_an =
     (case train_test_split permutation (normal df) (fsub (Fin 1) (py_float perc_tr_n)) of
        Inl e \<Rightarrow> Inl e
      | Inr (train_n, val_n0) \<Rightarrow>
     (case train_test_split permutation val_n0 (fsub (Fin 1) (py_float perc_val_n)) of
        Inl e \<Rightarrow> Inl e
      | Inr (val_n, test_n) \<Rightarrow>
     (let perc_anol_all = py_float perc_val_an in
      case n_anol (length train_n) perc_anol_all of
        Inl e \<Rightarrow> Inl e
      | Inr n \<Rightarrow>
     (case perc_anol_val_a n (length (anomaly df)) of
        Inl e \<Rightarrow> Inl e
      | Inr val_a_perc \<Rightarrow>
     (let perc_anol_test_a = fsub (Fin 1) val_a_perc in
      case train_test_split_stratify stratified (anomaly df) perc_anol_test_a
             (map col0 (anomaly df)) of
        Inl e \<Rightarrow> Inl e
      | Inr (val_a, test_a) \<Rightarrow>
          Inr \<lparr>X_train_n = train_n, X_val_n = val_n, X_test_n = test_n,
               X_val_a = val_a, X_test_a = test_a\<rparr>)))))"

section \<open>Assembling the arrays (lines 100 to 114)\<close>

text \<open>
  \<^verbatim>\<open>iloc[:, 1:]\<close> keeps every column but the first, \<^verbatim>\<open>iloc[:, 0]\<close> is the first column,
  and \<^verbatim>\<open>pd.concat\<close> of two tables with the same columns puts the rows of the second
  after the rows of the first.
\<close>

record arrays =
  X_train :: "cell list list"
  y_train :: "cell list"
  X_val :: "cell list list"
  y_val :: "cell list"
  X_val_p :: "cell list list"
  y_val_p :: "cell list"
  X_test :: "cell list list"
  y_test :: "cell list"

definition assemble :: "partitions \<Rightarrow> arrays" where
  "assemble P =
     \<lparr>X_train = map rest (X_train_n P),
      y_train = map col0 (X_train_n P),
      X_val = map rest (X_val_n P) @ map rest (X_val_a P),
      y_val = map col0 (X_val_n P) @ map col0 (X_val_a P),
      X_val_p = map rest (X_val_n P),
      y_val_p = map col0 (X_val_n P),
      X_test = map rest (X_test_n P) @ map rest (X_test_a P),
      y_test = map col0 (X_test_n P) @ map col0 (X_test_a P)\<rparr>"

section \<open>The file system\<close>

text \<open>
  Paths are relative to the working directory, which always exists and is the empty
  path. A path names a file with its bytes, a directory, or nothing.
\<close>

type_synonym path = string

datatype node = File string | Dir

type_synonym filesystem = "path \<Rightarrow> node option"

definition normpath :: "path \<Rightarrow> path" where
  "normpath p = (if take 2 p = ''./'' then drop 2 p else p)"

definition dirname :: "path \<Rightarrow> path" where
  "dirname p = rev (drop 1 (dropWhile (\<lambda>c. c \<noteq> CHR ''/'') (rev p)))"

definition parent_check :: "filesystem \<Rightarrow> path \<Rightarrow> error + unit" where
  "parent_check fs p =
     (if dirname p = [] then Inr ()
      else case fs (dirname p) of
             None \<Rightarrow> Inl FileNotFoundError
           | Some (File _) \<Rightarrow> Inl NotADirectoryError
           | Some Dir \<Rightarrow> Inr ())"

definition os_path_exists :: "filesystem \<Rightarrow> path \<Rightarrow> bool" where
  "os_path_exists fs p = (fs (normpath p) \<noteq> None)"

definition os_mkdir :: "filesystem \<Rightarrow> path \<Rightarrow> error + filesystem" where
  "os_mkdir fs p =
     (let q = normpath p in
      if fs q \<noteq> None then Inl FileExistsError
      else and_then (parent_check fs q) (\<lambda>_. Inr (fs(q \<mapsto> Dir))))"

definition open_wb :: "filesystem \<Rightarrow> path \<Rightarrow> string \<Rightarrow> error + filesystem" where
  "open_wb fs p bytes =
     (let q = normpath p in
      and_then (parent_check fs q) (\<lambda>_.
        case fs q of
          Some Dir \<Rightarrow> Inl IsADirectoryError
        | _ \<Rightarrow> Inr (fs(q \<mapsto> File bytes))))"

definition os_remove :: "filesystem \<Rightarrow> path \<Rightarrow> error + filesystem" where
  "os_remove fs p =
     (let q = normpath p in
      and_then (parent_check fs q) (\<lambda>_.
        case fs q of
          None \<Rightarrow> Inl FileNotFoundError
        | Some Dir \<Rightarrow> Inl IsADirectoryError
        | Some (File _) \<Rightarrow> Inr (fs(q := None))))"

text \<open>\<^verbatim>\<open>os.makedirs\<close>: the missing directories above a path are made first.\<close>

function os_makedirs :: "filesystem \<Rightarrow> path \<Rightarrow> error + filesystem" where
  "os_makedirs fs p =
     (if dirname p \<noteq> [] \<and> \<not> os_path_exists fs (dirname p)
      then and_then (os_makedirs fs (dirname p)) (\<lambda>fs'. os_mkdir fs' p)
      else os_mkdir fs p)"
  by pat_completeness auto
termination
proof (relation "measure (\<lambda>(fs, p). length p)")
  show "wf (measure (\<lambda>(fs :: filesystem, p :: path). length p))" by simp
next
  fix fs :: filesystem and p :: path
  assume a: "dirname p \<noteq> [] \<and> \<not> os_path_exists fs (dirname p)"
  let ?d = "dropWhile (\<lambda>c. c \<noteq> CHR ''/'') (rev p)"
  have "length ?d \<le> length (rev p)"
    by (rule length_dropWhile_le)
  moreover have "length (dirname p) = length ?d - 1"
    by (simp add: dirname_def)
  moreover have "0 < length (dirname p)"
    using a by simp
  ultimately have "length (dirname p) < length p" by simp
  then show "((fs, dirname p), (fs, p)) \<in> measure (\<lambda>(fs, p). length p)" by simp
qed

declare os_makedirs.simps [simp del]

section \<open>Fetching and unpacking (lines 13 to 18 and 36 to 64)\<close>

text \<open>
  What lies outside the script is a parameter: the answer of the web server (the chunks
  of the body for a chunk size, or no answer when the request raises), the members of a
  zip archive given its bytes (none when the bytes are no archive; every member a file,
  named by a relative path), the number a field of text stands for, the two random
  orderings of the splitting routine, and the bytes \<^verbatim>\<open>np.save\<close> writes for an array.
\<close>

datatype ndarray = Matrix "cell list list" | Vector "cell list"

record libs =
  lib_get :: "string \<Rightarrow> nat \<Rightarrow> string list option"
  lib_unzip :: "string \<Rightarrow> (path \<times> string) list option"
  lib_to_cell :: "string \<Rightarrow> cell"
  lib_permutation :: "nat \<Rightarrow> nat list"
  lib_stratified :: "cell list \<Rightarrow> nat \<Rightarrow> nat list"
  lib_save :: "ndarray \<Rightarrow> string"

definition download_url :: "libs \<Rightarrow> filesystem \<Rightarrow> string \<Rightarrow> path \<Rightarrow> error + filesystem" where
  "download_url L fs url save_path =
     (let chunk_size = 128 in
      case lib_get L url chunk_size of
        None \<Rightarrow> Inl ConnectionError
      | Some chunks \<Rightarrow> open_wb fs save_path (concat chunks))"

definition extract_member :: "filesystem \<Rightarrow> path \<Rightarrow> path \<times> string \<Rightarrow> error + filesystem" where
  "extract_member fs save_path m =
     (let targetpath = save_path @ ''/'' @ fst m;
          upperdirs = dirname targetpath
      in and_then
           (if upperdirs \<noteq> [] \<and> \<not> os_path_exists fs upperdirs
            then os_makedirs fs upperdirs else Inr fs)
           (\<lambda>fs'. open_wb fs' targetpath (snd m)))"

fun extract_members :: "filesystem \<Rightarrow> path \<Rightarrow> (path \<times> string) list \<Rightarrow> error + filesystem" where
  "extract_members fs save_path [] = Inr fs"
| "extract_members fs save_path (m # ms) =
     and_then (extract_member fs save_path m) (\<lambda>fs'. extract_members fs' save_path ms)"

definition extractall :: "libs \<Rightarrow> filesystem \<Rightarrow> path \<Rightarrow> path \<Rightarrow> error + filesystem" where
  "extractall L fs file_name save_path =
     (case fs (normpath file_name) of
        None \<Rightarrow> Inl FileNotFoundError
      | Some Dir \<Rightarrow> Inl IsADirectoryError
      | Some (File bytes) \<Rightarrow>
          (case lib_unzip L bytes of
             None \<Rightarrow> Inl BadZipFile
           | Some members \<Rightarrow> extract_members fs save_path members))"

text \<open>Lines 36 to 56: the folder, the download and the extraction.\<close>

definition fetch_and_unzip :: "libs \<Rightarrow> filesystem \<Rightarrow> error + filesystem" where
  "fetch_and_unzip L fs =
     and_then
       (if \<not> os_path_exists fs ''data/ECG5000'' then os_mkdir fs ''data/ECG5000'' else Inr fs)
       (\<lambda>fs1. and_then
          (download_url L fs1 ''http://www.timeseriesclassification.com/Downloads/ECG5000.zip''
             ''data/ECG5000.zip'')
          (\<lambda>fs2. extractall L fs2 ''data/ECG5000.zip'' ''data/ECG5000''))"

text \<open>Lines 58 to 64: six calls of \<^verbatim>\<open>os.remove\<close>, in this order, none of them guarded.\<close>

definition useless_files :: "path list" where
  "useless_files =
     [''data/ECG5000.zip'',
      ''data/ECG5000/ECG5000_TRAIN.arff'',
      ''data/ECG5000/ECG5000_TRAIN.ts'',
      ''data/ECG5000/ECG5000_TEST.ts'',
      ''data/ECG5000/ECG5000_TEST.arff'',
      ''data/ECG5000/ECG5000.txt'']"

fun remove_all :: "filesystem \<Rightarrow> path list \<Rightarrow> error + filesystem" where
  "remove_all fs [] = Inr fs"
| "remove_all fs (p # ps) = and_then (os_remove fs p) (\<lambda>fs'. remove_all fs' ps)"

definition removing_useless_files :: "filesystem \<Rightarrow> error + filesystem" where
  "removing_useless_files fs = remove_all fs useless_files"

definition extractor :: "libs \<Rightarrow> filesystem \<Rightarrow> error + filesystem" where
  "extractor L fs = and_then (fetch_and_unzip L fs) removing_useless_files"

section \<open>The loader (lines 72 to 80)\<close>

text \<open>
  \<^verbatim>\<open>pd.read_table(path, sep = r'\s{2,}', engine = 'python', header = None)\<close>: the file
  is read line by line; a line is stripped of the white space at both ends and cut at
  every match of the separator; a line that is blank is skipped; the first line kept is
  a row of data and fixes the number of columns, which are named by position; a row with
  more fields is an error and a row with fewer is filled with missing values.
  Characters are bytes here, white space is the ASCII white space of Python.
\<close>

definition isspace :: "char \<Rightarrow> bool" where
  "isspace c = (let n = (of_char c :: nat) in (9 \<le> n \<and> n \<le> 13) \<or> (28 \<le> n \<and> n \<le> 32))"

definition strip :: "string \<Rightarrow> string" where
  "strip s = rev (dropWhile isspace (rev (dropWhile isspace s)))"

text \<open>
  \<^verbatim>\<open>re.split(r'\s{2,}', s)\<close>: scanning from the left, a white space character followed
  by another starts a match, which takes the whole run; what lies between matches are
  the fields. The result is never empty: it is given as the first field and the others.
  \<open>cur\<close> holds the field being read, reversed.
\<close>

function re_split_from :: "string \<Rightarrow> string \<Rightarrow> string \<times> string list" where
  "re_split_from cur [] = (rev cur, [])"
| "re_split_from cur (c # cs) =
     (if isspace c \<and> (case cs of [] \<Rightarrow> False | d # _ \<Rightarrow> isspace d)
      then (rev cur, (case re_split_from [] (dropWhile isspace cs) of (f, fs) \<Rightarrow> f # fs))
      else re_split_from (c # cur) cs)"
  by pat_completeness auto
termination
proof (relation "measure (\<lambda>(cur, s). length s)")
  show "wf (measure (\<lambda>(cur :: string, s :: string). length s))" by simp
next
  fix cur :: string and c :: char and cs :: string
  have "length (dropWhile isspace cs) \<le> length cs" by (rule length_dropWhile_le)
  then show "(([], dropWhile isspace cs), (cur, c # cs)) \<in> measure (\<lambda>(cur, s). length s)"
    by simp
next
  fix cur :: string and c :: char and cs :: string
  show "((c # cur, cs), (cur, c # cs)) \<in> measure (\<lambda>(cur, s). length s)" by simp
qed

definition re_split :: "string \<Rightarrow> string \<times> string list" where
  "re_split s = re_split_from [] s"


text \<open>The lines of a file: a line ends at LF, at CR LF or at CR.\<close>

function splitlines_from :: "string \<Rightarrow> string \<Rightarrow> string list" where
  "splitlines_from cur [] = (if cur = [] then [] else [rev cur])"
| "splitlines_from cur (c # cs) =
     (if c = CHR 0x0A then rev cur # splitlines_from [] cs
      else if c = CHR 0x0D
      then rev cur # splitlines_from [] (case cs of [] \<Rightarrow> [] | d # ds \<Rightarrow> if d = CHR 0x0A then ds else cs)
      else splitlines_from (c # cur) cs)"
  by pat_completeness auto
termination
  by (relation "measure (\<lambda>(cur, s). length s)") (auto split: list.splits)

definition splitlines :: "string \<Rightarrow> string list" where
  "splitlines s = splitlines_from [] s"

datatype label = Pos nat | Name string

record frame =
  columns :: "label list"
  rows :: "row list"

definition pad :: "nat \<Rightarrow> cell list \<Rightarrow> cell list" where
  "pad w xs = xs @ replicate (w - length xs) NaN"

definition parse_table :: "(string \<Rightarrow> cell) \<Rightarrow> string list \<Rightarrow> error + frame" where
  "parse_table to_cell lines =
     (let content = filter (\<lambda>l. l \<noteq> ([], [])) (map (\<lambda>l. re_split (strip l)) lines) in
      case content of
        [] \<Rightarrow> Inl EmptyDataError
      | first # _ \<Rightarrow>
          let w = length (snd first) in
          if list_ex (\<lambda>l. w < length (snd l)) content then Inl ParserError
          else Inr \<lparr>columns = map Pos [0..<Suc w],
                    rows = map (\<lambda>l. \<lparr>col0 = to_cell (fst l),
                                       rest = pad w (map to_cell (snd l))\<rparr>) content\<rparr>)"

definition read_table :: "libs \<Rightarrow> filesystem \<Rightarrow> path \<Rightarrow> error + frame" where
  "read_table L fs p =
     (case fs (normpath p) of
        None \<Rightarrow> Inl FileNotFoundError
      | Some Dir \<Rightarrow> Inl IsADirectoryError
      | Some (File bytes) \<Rightarrow> parse_table (lib_to_cell L) (splitlines bytes))"

text \<open>
  \<^verbatim>\<open>pd.concat([train, test])\<close>: the rows of \<open>test\<close> after the rows of \<open>train\<close>; the columns
  are those of the wider table, and the rows of the narrower one are filled.
\<close>

definition pd_concat :: "frame \<Rightarrow> frame \<Rightarrow> frame" where
  "pd_concat a b =
     (let cols = (if length (columns a) < length (columns b) then columns b else columns a);
          fill = (\<lambda>r. r\<lparr>rest := pad (length cols - 1) (rest r)\<rparr>)
      in \<lparr>columns = cols, rows = map fill (rows a) @ map fill (rows b)\<rparr>)"

text \<open>Lines 78 to 80: \<^verbatim>\<open>new_columns[0] = 'Class'\<close>.\<close>

definition rename_first :: "frame \<Rightarrow> error + frame" where
  "rename_first df =
     (case columns df of
        [] \<Rightarrow> Inl IndexError
      | _ # new_columns \<Rightarrow> Inr (df\<lparr>columns := Name ''Class'' # new_columns\<rparr>))"

definition loader :: "libs \<Rightarrow> filesystem \<Rightarrow> error + frame" where
  "loader L fs =
     and_then (read_table L fs ''./data/ECG5000/ECG5000_TRAIN.txt'') (\<lambda>train.
     and_then (read_table L fs ''./data/ECG5000/ECG5000_TEST.txt'') (\<lambda>test.
       rename_first (pd_concat train test)))"

section \<open>Saving and the whole run (lines 116 to 130, 20 to 132)\<close>

text \<open>
  \<^verbatim>\<open>np.save(path, arr)\<close> opens the file for writing and writes the bytes of the array.
  \<^verbatim>\<open>X_val_p\<close> and \<^verbatim>\<open>y_val_p\<close> are handed over as a table and a column, not as their
  \<^verbatim>\<open>.values\<close>; what is written is the array of the same values. The four arguments are
  taken as \<^verbatim>\<open>argparse\<close> has parsed them, and what the script prints is left out.
\<close>

definition np_save :: "libs \<Rightarrow> filesystem \<Rightarrow> path \<Rightarrow> ndarray \<Rightarrow> error + filesystem" where
  "np_save L fs p arr = open_wb fs p (lib_save L arr)"

definition serializer :: "libs \<Rightarrow> filesystem \<Rightarrow> arrays \<Rightarrow> error + filesystem" where
  "serializer L fs A =
     and_then (np_save L fs ''./data/ECG5000/numpy/X_train.npy'' (Matrix (X_train A))) (\<lambda>fs.
     and_then (np_save L fs ''./data/ECG5000/numpy/y_train.npy'' (Vector (y_train A))) (\<lambda>fs.
     and_then (np_save L fs ''./data/ECG5000/numpy/X_val.npy'' (Matrix (X_val A))) (\<lambda>fs.
     and_then (np_save L fs ''./data/ECG5000/numpy/y_val.npy'' (Vector (y_val A))) (\<lambda>fs.
     and_then (np_save L fs ''./data/ECG5000/numpy/X_val_p.npy'' (Matrix (X_val_p A))) (\<lambda>fs.
     and_then (np_save L fs ''./data/ECG5000/numpy/y_val_p.npy'' (Vector (y_val_p A))) (\<lambda>fs.
     and_then (np_save L fs ''./data/ECG5000/numpy/X_test.npy'' (Matrix (X_test A))) (\<lambda>fs.
     np_save L fs ''./data/ECG5000/numpy/y_test.npy'' (Vector (y_test A)))))))))"

record args =
  download :: int
  perc_tr_n :: rat
  perc_val_n :: rat
  perc_val_an :: rat

definition data_preparation :: "libs \<Rightarrow> args \<Rightarrow> filesystem \<Rightarrow> error + filesystem" where
  "data_preparation L a fs =
     and_then (if download a \<noteq> 0 then extractor L fs else Inr fs) (\<lambda>fs1.
     and_then (if \<not> os_path_exists fs1 ''data/ECG5000/numpy''
               then os_mkdir fs1 ''data/ECG5000/numpy'' else Inr fs1) (\<lambda>fs2.
     and_then (loader L fs2) (\<lambda>df.
     and_then (partitioner (lib_permutation L) (lib_stratified L) (rows df)
                 (perc_tr_n a) (perc_val_n a) (perc_val_an a)) (\<lambda>P.
       serializer L fs2 (assemble P)))))"

section \<open>Parallel arrays\<close>


section \<open>A small table and a small world\<close>

text \<open>
  Concrete inputs on which the statements below are run: two orderings of the row
  positions, and a table of four normal and four anomalous rows.
\<close>

definition example_permutation :: "nat \<Rightarrow> nat list" where
  "example_permutation n = rev [0..<n]"

definition example_stratified :: "cell list \<Rightarrow> nat \<Rightarrow> nat list" where
  "example_stratified y k = [0..<length y]"

definition example_rows :: "row list" where
  "example_rows =
     [\<lparr>col0 = Num 1, rest = [Num 10]\<rparr>, \<lparr>col0 = Num 2, rest = [Num 20]\<rparr>,
      \<lparr>col0 = Num 1, rest = [Num 11]\<rparr>, \<lparr>col0 = Num 2, rest = [Num 21]\<rparr>,
      \<lparr>col0 = Num 1, rest = [Num 12]\<rparr>, \<lparr>col0 = Num 2, rest = [Num 22]\<rparr>,
      \<lparr>col0 = Num 1, rest = [Num 13]\<rparr>, \<lparr>col0 = Num 2, rest = [Num 23]\<rparr>]"

text \<open>
  A world for the whole run: the server answers with two chunks, which unzip to the five
  files that are deleted and the two text files; numbers are written in decimal digits.
\<close>

definition example_to_cell :: "string \<Rightarrow> cell" where
  "example_to_cell s = Num (of_nat (foldl (\<lambda>n c. 10 * n + (of_char c - 48)) 0 s))"

definition example_train_txt :: string where
  "example_train_txt =
     concat (map (\<lambda>l. l @ [CHR 0x0A]) [''1  10'', ''   2   20'', [], ''1  11  '', ''2  21''])"

definition example_test_txt :: string where
  "example_test_txt =
     concat (map (\<lambda>l. l @ [CHR 0x0D, CHR 0x0A]) [''1  12'', ''2  22'', ''1  13'', ''2  23''])"

definition example_members :: "(path \<times> string) list" where
  "example_members =
     [(''ECG5000_TRAIN.arff'', ''a''), (''ECG5000_TRAIN.ts'', ''b''),
      (''ECG5000_TEST.ts'', ''c''), (''ECG5000_TEST.arff'', ''d''),
      (''ECG5000.txt'', ''e''),
      (''ECG5000_TRAIN.txt'', example_train_txt),
      (''ECG5000_TEST.txt'', example_test_txt)]"

definition example_save :: "ndarray \<Rightarrow> string" where
  "example_save arr =
     (case arr of Matrix m \<Rightarrow> replicate (length m) (CHR ''X'')
                | Vector v \<Rightarrow> replicate (length v) (CHR ''y''))"

definition example_libs :: libs where
  "example_libs =
     \<lparr>lib_get = (\<lambda>url chunk_size. Some [''PK'', ''zip'']),
      lib_unzip = (\<lambda>bytes. if bytes = ''PKzip'' then Some example_members else None),
      lib_to_cell = example_to_cell,
      lib_permutation = example_permutation,
      lib_stratified = example_stratified,
      lib_save = example_save\<rparr>"

text \<open>The same world with an archive that lacks \<^verbatim>\<open>ECG5000.txt\<close>.\<close>

definition example_libs_short :: libs where
  "example_libs_short =
     example_libs\<lparr>lib_unzip :=
       (\<lambda>bytes. Some (filter (\<lambda>m. fst m \<noteq> ''ECG5000.txt'') example_members))\<rparr>"

definition example_fs :: filesystem where
  "example_fs = Map.empty(''data'' \<mapsto> Dir)"

definition example_args :: args where
  "example_args = \<lparr>download = 1, perc_tr_n = 1/2, perc_val_n = 1/2, perc_val_an = 1/2\<rparr>"


definition example_partitions :: partitions where
  "example_partitions =
     \<lparr>X_train_n = [\<lparr>col0 = Num 1, rest = [Num 11]\<rparr>, \<lparr>col0 = Num 1, rest = [Num 10]\<rparr>],
      X_val_n = [\<lparr>col0 = Num 1, rest = [Num 13]\<rparr>],
      X_test_n = [\<lparr>col0 = Num 1, rest = [Num 12]\<rparr>],
      X_val_a = [\<lparr>col0 = Num 2, rest = [Num 22]\<rparr>, \<lparr>col0 = Num 2, rest = [Num 23]\<rparr>],
      X_test_a = [\<lparr>col0 = Num 2, rest = [Num 20]\<rparr>, \<lparr>col0 = Num 2, rest = [Num 21]\<rparr>]\<rparr>"

section \<open>Facts about the splitting routine\<close>

lemma and_then_Inr:
  "and_then r f = Inr y \<longleftrightarrow> (\<exists>x. r = Inr x \<and> f x = Inr y)"
  by (cases r) (simp_all add: and_then_def)

lemma and_then_Inl:
  "and_then r f = Inl e \<longleftrightarrow> (r = Inl e \<or> (\<exists>x. r = Inr x \<and> f x = Inl e))"
  by (cases r) (simp_all add: and_then_def)

lemma pow2n_eq: "pow2n n = 2 ^ n"
proof (induction n rule: pow2n.induct)
  case (1 n)
  show ?case
  proof (cases "n = 0")
    case True
    then show ?thesis by (subst pow2n.simps) simp
  next
    case False
    have h: "pow2n (n div 2) = 2 ^ (n div 2)" using "1.IH"[OF False] .
    have e: "(2::rat) ^ (n div 2) * 2 ^ (n div 2) = 2 ^ (2 * (n div 2))"
      by (metis mult_2 power_add)
    show ?thesis
    proof (cases "even n")
      case True
      then have "2 * (n div 2) = n" by simp
      then show ?thesis
        using False True h e by (subst pow2n.simps) (simp add: Let_def)
    next
      case odd: False
      then have "Suc (2 * (n div 2)) = n" by simp
      then have "(2::rat) ^ n = 2 * 2 ^ (2 * (n div 2))" by (metis power_Suc)
      then show ?thesis
        using False odd h e by (subst pow2n.simps) (simp add: Let_def mult.assoc)
    qed
  qed
qed

lemma pow2_pos: "0 < pow2 e"
  by (simp add: pow2_def pow2n_eq)

lemma pow2_diff: "pow2 (a - b) = pow2 a / pow2 b"
proof -
  have p: "pow2 e = 2 powi e" for e
    by (simp add: pow2_def pow2n_eq power_int_def field_simps)
  show ?thesis by (simp add: p power_int_diff)
qed

lemma ilog2_le: "1 \<le> n \<Longrightarrow> 2 ^ ilog2 n \<le> n"
proof (induction n rule: ilog2.induct)
  case (1 n)
  show ?case
  proof (cases "n < 2")
    case True
    then show ?thesis using "1.prems" by (subst ilog2.simps) simp
  next
    case False
    then have "1 \<le> n div 2" by simp
    from "1.IH"[OF False this] have "2 * 2 ^ ilog2 (n div 2) \<le> 2 * (n div 2)" by simp
    also have "\<dots> \<le> n" by simp
    finally show ?thesis using False by (subst ilog2.simps) simp
  qed
qed

lemma round_half_even_ge_floor: "\<lfloor>x\<rfloor> \<le> round_half_even x"
  by (simp add: round_half_even_def Let_def)

lemma round_half_even_nonneg: "0 \<le> x \<Longrightarrow> 0 \<le> round_half_even x"
  using round_half_even_ge_floor[of x] by (meson order_trans zero_le_floor)

lemma round_double_cases:
  assumes "x \<noteq> 0"
  obtains r where "0 \<le> r"
    and "r = of_int (round_half_even (\<bar>x\<bar> / pow2 (max (exponent x - 52) (- 1074))))
               * pow2 (max (exponent x - 52) (- 1074))"
    and "round_double x = Fin (if 0 < x then r else - r)
         \<or> round_double x = (if 0 < x then PInf else NInf)"
proof -
  let ?q = "max (exponent x - 52) (- 1074)"
  let ?r = "of_int (round_half_even (\<bar>x\<bar> / pow2 ?q)) * pow2 ?q"
  have "0 \<le> \<bar>x\<bar> / pow2 ?q" using pow2_pos[of ?q] by simp
  then have "0 \<le> round_half_even (\<bar>x\<bar> / pow2 ?q)" by (rule round_half_even_nonneg)
  then have 1: "0 \<le> ?r" using pow2_pos[of ?q] by simp
  have 2: "round_double x = Fin (if 0 < x then ?r else - ?r)
         \<or> round_double x = (if 0 < x then PInf else NInf)"
    using assms by (simp add: round_double_def Let_def)
  show ?thesis using that[OF 1 refl 2] .
qed

lemma round_double_nonpos: "x \<le> 0 \<Longrightarrow> fle (round_double x) (Fin 0)"
proof (cases "x = 0")
  case True
  then show ?thesis by (simp add: round_double_def)
next
  case False
  assume "x \<le> 0"
  with False have neg: "\<not> 0 < x" by simp
  from False obtain r where "0 \<le> r"
    "round_double x = Fin (if 0 < x then r else - r)
         \<or> round_double x = (if 0 < x then PInf else NInf)"
    by (rule round_double_cases)
  then show ?thesis using neg by auto
qed

lemma round_double_nonneg: "0 \<le> x \<Longrightarrow> fle (Fin 0) (round_double x)"
proof (cases "x = 0")
  case True
  then show ?thesis by (simp add: round_double_def)
next
  case False
  assume "0 \<le> x"
  with False have pos: "0 < x" by simp
  from False obtain r where "0 \<le> r"
    "round_double x = Fin (if 0 < x then r else - r)
         \<or> round_double x = (if 0 < x then PInf else NInf)"
    by (rule round_double_cases)
  then show ?thesis using pos by auto
qed

lemma round_double_ge_1: "1 \<le> x \<Longrightarrow> fle (Fin 1) (round_double x)"
proof -
  assume x: "1 \<le> x"
  then have nz: "x \<noteq> 0" and pos: "0 < x" and ax: "\<bar>x\<bar> = x" by simp_all
  let ?e = "exponent x"
  let ?q = "max (?e - 52) (- 1074)"
  have e: "?e = int (ilog2 (nat \<lfloor>x\<rfloor>))" using x by (simp add: exponent_def ax)
  have e0: "0 \<le> ?e" using e by simp
  have q: "?q = ?e - 52" using e0 by simp
  have fl: "1 \<le> nat \<lfloor>x\<rfloor>" using x by (simp add: le_nat_iff)
  have "(2::nat) ^ ilog2 (nat \<lfloor>x\<rfloor>) \<le> nat \<lfloor>x\<rfloor>" using ilog2_le[OF fl] .
  then have "(of_nat (2 ^ ilog2 (nat \<lfloor>x\<rfloor>)) :: rat) \<le> of_nat (nat \<lfloor>x\<rfloor>)"
    by (simp only: of_nat_le_iff)
  also have "\<dots> = of_int \<lfloor>x\<rfloor>" using fl by simp
  also have "\<dots> \<le> x" by simp
  finally have lo: "pow2 ?e \<le> x" by (simp add: pow2_def pow2n_eq e)
  have "pow2 52 = pow2 ?e / pow2 ?q" using pow2_diff[of ?e ?q] by (simp add: q)
  also have "\<dots> \<le> x / pow2 ?q" using lo pow2_pos[of ?q] by (simp add: divide_right_mono)
  finally have big: "pow2 52 \<le> x / pow2 ?q" .
  have p52: "pow2 52 = of_int (2 ^ 52)" by (simp add: pow2_def pow2n_eq)
  have "(2::int) ^ 52 \<le> \<lfloor>x / pow2 ?q\<rfloor>" using big unfolding p52 by (simp only: le_floor_iff)
  also have "\<dots> \<le> round_half_even (x / pow2 ?q)" by (rule round_half_even_ge_floor)
  finally have "pow2 52 \<le> of_int (round_half_even (x / pow2 ?q))"
    unfolding p52 by (simp only: of_int_le_iff)
  then have "pow2 52 * pow2 ?q \<le> of_int (round_half_even (x / pow2 ?q)) * pow2 ?q"
    using pow2_pos[of ?q] by (simp add: mult_right_mono)
  moreover have "pow2 52 * pow2 ?q = pow2 ?e"
    using pow2_diff[of ?e ?q] pow2_pos[of ?q] by (simp add: q)
  moreover have "1 \<le> pow2 ?e" using e0 by (simp add: pow2_def pow2n_eq)
  ultimately have r1: "1 \<le> of_int (round_half_even (x / pow2 ?q)) * pow2 ?q" by simp
  from nz obtain r where
    r: "r = of_int (round_half_even (\<bar>x\<bar> / pow2 ?q)) * pow2 ?q"
    and d: "round_double x = Fin (if 0 < x then r else - r)
         \<or> round_double x = (if 0 < x then PInf else NInf)"
    by (rule round_double_cases)
  have "1 \<le> r" using r1 r ax by simp
  then show ?thesis using d pos by auto
qed

lemma fle_unit_interval:
  "\<not> fle a (Fin 0) \<Longrightarrow> \<not> fle (Fin 1) a \<Longrightarrow> a \<noteq> FNaN \<Longrightarrow> \<exists>t. a = Fin t \<and> 0 < t \<and> t < 1"
  by (cases a) auto

lemma int_to_float_Inr:
  assumes "int_to_float n = Inr fn"
  shows "\<exists>m. fn = Fin m \<and> 0 \<le> m \<and> round_double (of_nat n) = Fin m"
proof -
  from assms obtain m where m: "fn = Fin m" "round_double (of_nat n) = Fin m"
    by (cases "round_double (of_nat n)") (auto simp: int_to_float_def)
  have "fle (Fin 0) (round_double (of_nat n))" by (rule round_double_nonneg) simp
  then have "0 \<le> m" using m(2) by simp
  then show ?thesis using m by blast
qed

lemma validate_shuffle_splitD:
  assumes "validate_shuffle_split n ts = Inr (a, b)"
  shows "\<exists>t. ts = Fin t \<and> 0 < t \<and> t < 1" and "0 < a" and "a + b = n"
    and "\<exists>fn v. int_to_float n = Inr fn \<and> fmul ts fn = Fin v \<and> int b = \<lceil>v\<rceil>"
proof -
  from assms have r: "\<not> fle ts (Fin 0)" "\<not> fle (Fin 1) ts"
    by (auto simp: validate_shuffle_split_def split: if_splits)
  with assms obtain fn c where
    fn: "int_to_float n = Inr fn" and c: "py_ceil (fmul ts fn) = Inr c"
    and ab: "\<not> int n - c \<le> 0" "a = nat (int n - c)" "b = nat c"
    by (auto simp: validate_shuffle_split_def and_then_Inr Let_def split: if_splits)
  have "ts \<noteq> FNaN" using c by (auto simp: py_ceil_def)
  from fle_unit_interval[OF r this] obtain t where t: "ts = Fin t" "0 < t" "t < 1" by blast
  then show "\<exists>t. ts = Fin t \<and> 0 < t \<and> t < 1" by blast
  from c obtain v where v: "fmul ts fn = Fin v" "c = \<lceil>v\<rceil>"
    by (auto simp: py_ceil_def split: pyfloat.splits)
  from int_to_float_Inr[OF fn] obtain m where m: "fn = Fin m" "0 \<le> m" by blast
  have "fle (Fin 0) (round_double (t * m))"
    using t(2) m(2) by (intro round_double_nonneg) simp
  then have "0 \<le> v" using v(1) t(1) m(1) by simp
  then have c0: "0 \<le> c" using v(2) by simp
  show "0 < a" using ab by simp
  show "a + b = n" using ab c0 by simp
  show "\<exists>fn v. int_to_float n = Inr fn \<and> fmul ts fn = Fin v \<and> int b = \<lceil>v\<rceil>"
    using fn v ab c0 by auto
qed

lemma length_safe_indexing [simp]: "length (safe_indexing arr p) = length p"
  by (simp add: safe_indexing_def)

lemma safe_indexing_append:
  "safe_indexing arr (p @ q) = safe_indexing arr p @ safe_indexing arr q"
  by (simp add: safe_indexing_def)

lemma mset_safe_indexing:
  assumes "mset p = mset [0..<length arr]"
  shows "mset (safe_indexing arr p) = mset arr"
proof -
  have "mset (map (\<lambda>i. arr ! i) p) = image_mset (\<lambda>i. arr ! i) (mset [0..<length arr])"
    using assms by (metis mset_map)
  also have "\<dots> = mset (map (\<lambda>i. arr ! i) [0..<length arr])" by simp
  also have "\<dots> = mset arr" by (simp add: map_nth)
  finally show ?thesis by (simp add: safe_indexing_def)
qed

lemma train_test_split_parts:
  assumes perm: "is_permutation permutation"
    and ok: "train_test_split permutation arr t = Inr (tr, te)"
  shows "mset tr + mset te = mset arr"
    and "validate_shuffle_split (length arr) t = Inr (length tr, length te)"
    and "0 < length tr"
    and "length tr + length te = length arr"
proof -
  let ?n = "length arr"
  let ?p = "permutation ?n"
  obtain a b where v: "validate_shuffle_split ?n t = Inr (a, b)"
    using ok by (auto simp: train_test_split_def split: sum.splits)
  note d = validate_shuffle_splitD(2,3)[OF v]
  have mp: "mset ?p = mset [0..<?n]" using perm by (simp add: is_permutation_def)
  then have lp: "length ?p = ?n" by (metis length_upt mset_eq_length minus_nat.diff_0)
  have tr: "tr = safe_indexing arr (take a (drop b ?p))"
    and te: "te = safe_indexing arr (take b ?p)"
    using ok v by (auto simp: train_test_split_def Let_def)
  have "take a (drop b ?p) = drop b ?p" using lp d(2) by simp
  then have "take b ?p @ take a (drop b ?p) = ?p" by simp
  then have "mset te + mset tr = mset (safe_indexing arr ?p)"
    unfolding tr te by (metis safe_indexing_append mset_append)
  then show "mset tr + mset te = mset arr"
    using mset_safe_indexing[OF mp] by (simp add: add.commute)
  have la: "length tr = a" using tr lp d by simp
  have lb: "length te = b" using te lp d by simp
  show "validate_shuffle_split ?n t = Inr (length tr, length te)" using v la lb by simp
  show "0 < length tr" using la d by simp
  show "length tr + length te = ?n" using la lb d by simp
qed

lemma train_test_split_stratify_parts:
  assumes perm: "is_stratified stratified"
    and ok: "train_test_split_stratify stratified arr t y = Inr (tr, te)"
    and ly: "length y = length arr"
  shows "mset tr + mset te = mset arr"
    and "validate_shuffle_split (length arr) t = Inr (length tr, length te)"
    and "0 < length tr"
    and "length tr + length te = length arr"
proof -
  let ?n = "length arr"
  obtain a b where v: "validate_shuffle_split ?n t = Inr (a, b)"
    using ok by (auto simp: train_test_split_stratify_def split: sum.splits)
  note d = validate_shuffle_splitD(2,3)[OF v]
  let ?p = "stratified y b"
  have mp: "mset ?p = mset [0..<?n]" using perm ly by (simp add: is_stratified_def)
  then have lp: "length ?p = ?n" by (metis length_upt mset_eq_length minus_nat.diff_0)
  have tr: "tr = safe_indexing arr (drop b ?p)"
    and te: "te = safe_indexing arr (take b ?p)"
    using ok v by (auto simp: train_test_split_stratify_def Let_def split: if_splits)
  have "mset te + mset tr = mset (safe_indexing arr ?p)"
    unfolding tr te by (metis safe_indexing_append mset_append append_take_drop_id)
  then show "mset tr + mset te = mset arr"
    using mset_safe_indexing[OF mp] by (simp add: add.commute)
  have la: "length tr = a" using tr lp d by simp
  have lb: "length te = b" using te lp d by simp
  show "validate_shuffle_split ?n t = Inr (length tr, length te)" using v la lb by simp
  show "0 < length tr" using la d by simp
  show "length tr + length te = ?n" using la lb d by simp
qed

text \<open>What a run of the partitioner that returns went through.\<close>

lemma partitionerE:
  assumes "partitioner permutation stratified df p_tr p_val p_an = Inr P"
  obtains val_n0 n share where
    "train_test_split permutation (normal df) (fsub (Fin 1) (py_float p_tr))
       = Inr (X_train_n P, val_n0)"
    "train_test_split permutation val_n0 (fsub (Fin 1) (py_float p_val))
       = Inr (X_val_n P, X_test_n P)"
    "n_anol (length (X_train_n P)) (py_float p_an) = Inr n"
    "perc_anol_val_a n (length (anomaly df)) = Inr share"
    "train_test_split_stratify stratified (anomaly df) (fsub (Fin 1) share)
       (map col0 (anomaly df)) = Inr (X_val_a P, X_test_a P)"
  using assms
  by (auto simp: partitioner_def Let_def split: sum.splits prod.splits)

lemma example_orderings:
  "is_permutation example_permutation" "is_stratified example_stratified"
  by (simp_all add: is_permutation_def is_stratified_def example_permutation_def
      example_stratified_def)

lemma example_run:
  "partitioner example_permutation example_stratified example_rows (1/2) (1/2) (1/2)
     = Inr example_partitions"
  by code_simp

lemma zip_map_same: "zip (map f xs) (map g xs) = map (\<lambda>x. (f x, g x)) xs"
  by (induction xs) simp_all

lemma anomalous_parts:
  assumes "is_stratified stratified"
    and "partitioner permutation stratified df p_tr p_val p_an = Inr P"
  shows "set (X_val_a P) \<subseteq> set (anomaly df)" and "set (X_test_a P) \<subseteq> set (anomaly df)"
    and "X_val_a P \<noteq> []"
    and "mset (X_val_a P) + mset (X_test_a P) = mset (anomaly df)"
    and "length (X_val_a P) + length (X_test_a P) = length (anomaly df)"
proof -
  from assms(2) obtain t where
    s3: "train_test_split_stratify stratified (anomaly df) t (map col0 (anomaly df))
          = Inr (X_val_a P, X_test_a P)"
    by (rule partitionerE)
  have ly: "length (map col0 (anomaly df)) = length (anomaly df)" by simp
  note c = train_test_split_stratify_parts[OF assms(1) s3 ly]
  have "mset (X_val_a P) \<subseteq># mset (anomaly df)" "mset (X_test_a P) \<subseteq># mset (anomaly df)"
    using c(1) by (metis mset_subset_eq_add_left, metis mset_subset_eq_add_right)
  then show "set (X_val_a P) \<subseteq> set (anomaly df)" "set (X_test_a P) \<subseteq> set (anomaly df)"
    by (metis set_mset_mono set_mset_mset)+
  show "X_val_a P \<noteq> []" using c(3) by auto
  show "mset (X_val_a P) + mset (X_test_a P) = mset (anomaly df)" using c(1) .
  show "length (X_val_a P) + length (X_test_a P) = length (anomaly df)" using c(4) .
qed

lemma normal_parts:
  assumes "is_permutation permutation"
    and "partitioner permutation stratified df p_tr p_val p_an = Inr P"
  shows "set (X_train_n P) \<subseteq> set (normal df)" and "set (X_val_n P) \<subseteq> set (normal df)"
    and "set (X_test_n P) \<subseteq> set (normal df)"
    and "mset (X_train_n P) + mset (X_val_n P) + mset (X_test_n P) = mset (normal df)"
    and "length (X_train_n P) + length (X_val_n P) + length (X_test_n P) = length (normal df)"
    and "0 < length (X_train_n P)"
proof -
  from assms(2) obtain val_n0 where
    s1: "train_test_split permutation (normal df) (fsub (Fin 1) (py_float p_tr))
           = Inr (X_train_n P, val_n0)" and
    s2: "train_test_split permutation val_n0 (fsub (Fin 1) (py_float p_val))
           = Inr (X_val_n P, X_test_n P)"
    by (rule partitionerE)
  note a = train_test_split_parts[OF assms(1) s1]
  note b = train_test_split_parts[OF assms(1) s2]
  have 1: "mset (X_train_n P) \<subseteq># mset (normal df)" "mset val_n0 \<subseteq># mset (normal df)"
    using a(1) by (metis mset_subset_eq_add_left, metis mset_subset_eq_add_right)
  have 2: "mset (X_val_n P) \<subseteq># mset val_n0" "mset (X_test_n P) \<subseteq># mset val_n0"
    using b(1) by (metis mset_subset_eq_add_left, metis mset_subset_eq_add_right)
  show "set (X_train_n P) \<subseteq> set (normal df)"
    using 1(1) by (metis set_mset_mono set_mset_mset)
  have "set val_n0 \<subseteq> set (normal df)" using 1(2) by (metis set_mset_mono set_mset_mset)
  moreover have "set (X_val_n P) \<subseteq> set val_n0" "set (X_test_n P) \<subseteq> set val_n0"
    using 2 by (metis set_mset_mono set_mset_mset)+
  ultimately show "set (X_val_n P) \<subseteq> set (normal df)" "set (X_test_n P) \<subseteq> set (normal df)"
    by auto
  show "mset (X_train_n P) + mset (X_val_n P) + mset (X_test_n P) = mset (normal df)"
    using a(1) b(1) by (simp add: add.assoc)
  show "length (X_train_n P) + length (X_val_n P) + length (X_test_n P) = length (normal df)"
    using a(4) b(4) by simp
  show "0 < length (X_train_n P)" using a(3) .
qed

lemma validate_shuffle_split_error:
  "validate_shuffle_split n t = Inl e \<Longrightarrow> e = ValueError \<or> e = OverflowError"
  by (auto simp: validate_shuffle_split_def and_then_Inl int_to_float_def py_ceil_def Let_def
      split: if_splits pyfloat.splits)

lemma train_test_split_error:
  "train_test_split permutation arr t = Inl e \<Longrightarrow> e = ValueError \<or> e = OverflowError"
  by (auto simp: train_test_split_def Let_def dest: validate_shuffle_split_error
      split: sum.splits prod.splits)

lemma train_test_split_stratify_error:
  "train_test_split_stratify stratified arr t y = Inl e
     \<Longrightarrow> e = ValueError \<or> e = OverflowError \<or> e = TypeError"
  by (auto simp: train_test_split_stratify_def Let_def dest: validate_shuffle_split_error
      split: sum.splits prod.splits if_splits)

lemma n_anol_error:
  "n_anol l p = Inl e \<Longrightarrow> e = OverflowError \<or> e = ZeroDivisionError"
  by (auto simp: n_anol_def and_then_Inl int_to_float_def py_div_def
      split: if_splits pyfloat.splits)

lemma perc_anol_val_a_error:
  "perc_anol_val_a n l = Inl e \<Longrightarrow> e = OverflowError \<or> e = ZeroDivisionError"
  by (auto simp: perc_anol_val_a_def and_then_Inl int_to_float_def py_div_def
      split: if_splits pyfloat.splits)

lemma partitioner_error:
  assumes "partitioner permutation stratified df p_tr p_val p_an = Inl e"
  shows "e = ValueError \<or> e = ZeroDivisionError \<or> e = OverflowError \<or> e = TypeError"
  using assms
  by (auto simp: partitioner_def Let_def
      dest: train_test_split_error train_test_split_stratify_error n_anol_error
        perc_anol_val_a_error
      split: sum.splits prod.splits)




lemma example_run_one:
  "partitioner example_permutation example_stratified example_rows (1/2) (1/2) 1
     = Inl ZeroDivisionError"
  by code_simp

lemma n_anol_Inr:
  assumes "n_anol len p = Inr n"
  shows "\<exists>l. int_to_float len = Inr l \<and> fsub (Fin 1) p \<noteq> Fin 0
           \<and> n = fdiv (fmul l p) (fsub (Fin 1) p)"
  using assms by (auto simp: n_anol_def and_then_Inr py_div_def split: if_splits)

lemma perc_anol_val_a_Inr:
  assumes "perc_anol_val_a n len = Inr share"
  shows "\<exists>l. int_to_float len = Inr l \<and> l \<noteq> Fin 0 \<and> share = fdiv n l" and "len \<noteq> 0"
proof -
  show "\<exists>l. int_to_float len = Inr l \<and> l \<noteq> Fin 0 \<and> share = fdiv n l"
    using assms by (auto simp: perc_anol_val_a_def and_then_Inr py_div_def split: if_splits)
  show "len \<noteq> 0"
  proof
    assume "len = 0"
    then have "int_to_float len = Inr (Fin 0)"
      by (simp add: int_to_float_def round_double_def)
    then show False
      using assms by (simp add: perc_anol_val_a_def and_then_def py_div_def)
  qed
qed

lemma fsub_1_unit:
  assumes "fsub (Fin 1) share = Fin t" and "0 < t" and "t < 1"
  shows "\<exists>f. share = Fin f \<and> 0 < f \<and> f < 1"
proof (cases share)
  case (Fin f)
  have r: "round_double (1 - f) = Fin t" using assms(1) Fin by simp
  have "0 < f"
  proof (rule ccontr)
    assume "\<not> 0 < f"
    then have "1 \<le> 1 - f" by simp
    from round_double_ge_1[OF this] show False using r assms(3) by simp
  qed
  moreover have "f < 1"
  proof (rule ccontr)
    assume "\<not> f < 1"
    then have "1 - f \<le> 0" by simp
    from round_double_nonpos[OF this] show False using r assms(2) by simp
  qed
  ultimately show ?thesis using Fin by blast
qed (use assms in auto)

text \<open>The split of the anomalous rows in a run that returns.\<close>

lemma anomalous_split:
  assumes "is_stratified stratified"
    and "partitioner permutation stratified df p_tr p_val p_an = Inr P"
  obtains n f t m v where
    "n_anol (length (X_train_n P)) (py_float p_an) = Inr n"
    "perc_anol_val_a n (length (anomaly df)) = Inr (Fin f)" "0 < f" "f < 1"
    "fsub (Fin 1) (Fin f) = Fin t" "0 < t" "t < 1"
    "int_to_float (length (anomaly df)) = Inr m" "fmul (Fin t) m = Fin v"
    "int (length (X_test_a P)) = \<lceil>v\<rceil>"
proof -
  from assms(2) obtain n share where
    n: "n_anol (length (X_train_n P)) (py_float p_an) = Inr n" and
    fr: "perc_anol_val_a n (length (anomaly df)) = Inr share" and
    s3: "train_test_split_stratify stratified (anomaly df) (fsub (Fin 1) share)
       (map col0 (anomaly df)) = Inr (X_val_a P, X_test_a P)"
    by (rule partitionerE)
  have ly: "length (map col0 (anomaly df)) = length (anomaly df)" by simp
  note c = train_test_split_stratify_parts(2)[OF assms(1) s3 ly]
  from validate_shuffle_splitD(1)[OF c] obtain t where
    t: "fsub (Fin 1) share = Fin t" "0 < t" "t < 1" by blast
  from fsub_1_unit[OF t] obtain f where f: "share = Fin f" "0 < f" "f < 1" by blast
  from validate_shuffle_splitD(4)[OF c] obtain m v where
    m: "int_to_float (length (anomaly df)) = Inr m" "fmul (fsub (Fin 1) share) m = Fin v"
      "int (length (X_test_a P)) = \<lceil>v\<rceil>" by blast
  show ?thesis
    using that[OF n fr[unfolded f(1)] f(2,3) t(1)[unfolded f(1)] t(2,3) m(1)
        m(2)[unfolded t(1)] m(3)] .
qed

lemma example_n_anol:
  "n_anol 2 (py_float (1/2)) = Inr (Fin 2)"
  "perc_anol_val_a (Fin 2) 4 = Inr (Fin (1/2))"
  by code_simp+

lemma example_run_near_zero:
  "partitioner example_permutation example_stratified example_rows (1/2) (1/2) (1/100)
     = Inl ValueError"
  "n_anol 2 (py_float (1/100)) = Inr (Fin (5822835881852763 / 288230376151711744))"
  "perc_anol_val_a (Fin (5822835881852763 / 288230376151711744)) 4
     = Inr (Fin (5822835881852763 / 1152921504606846976))"
  "validate_shuffle_split 4 (fsub (Fin 1) (py_float (1/2))) = Inr (2, 2)"
  by code_simp+

section \<open>Facts about the file system\<close>

lemma os_remove_Inr:
  assumes "os_remove fs p = Inr fs'" and "normpath p = p"
  shows "\<exists>d. fs p = Some (File d)" and "fs' = fs(p := None)"
  using assms
  by (auto simp: os_remove_def and_then_Inr Let_def split: option.splits node.splits)

lemma os_remove_error:
  assumes "os_remove fs p = Inl e"
  shows "e = FileNotFoundError \<or> e = NotADirectoryError \<or> e = IsADirectoryError"
  using assms
  by (auto simp: os_remove_def and_then_def parent_check_def Let_def
      split: option.splits node.splits sum.splits if_splits)

lemma os_remove_absent:
  assumes "fs p = None" and "normpath p = p"
  shows "\<exists>e. os_remove fs p = Inl e"
  using assms
  by (cases "parent_check fs p") (auto simp: os_remove_def and_then_def Let_def)

lemma remove_all_Inr:
  assumes "remove_all fs ps = Inr fs'" and "distinct ps" and "\<forall>p\<in>set ps. normpath p = p"
  shows "(\<forall>p\<in>set ps. (\<exists>d. fs p = Some (File d)) \<and> fs' p = None)
       \<and> (\<forall>q. q \<notin> set ps \<longrightarrow> fs' q = fs q)"
  using assms
proof (induction ps arbitrary: fs)
  case Nil
  then show ?case by simp
next
  case (Cons p ps)
  from Cons.prems(1) obtain fs1 where
    r: "os_remove fs p = Inr fs1" and rest: "remove_all fs1 ps = Inr fs'"
    by (auto simp: and_then_Inr)
  have np: "normpath p = p" using Cons.prems(3) by simp
  note h = os_remove_Inr[OF r np]
  have ih: "(\<forall>q\<in>set ps. (\<exists>d. fs1 q = Some (File d)) \<and> fs' q = None)
       \<and> (\<forall>q. q \<notin> set ps \<longrightarrow> fs' q = fs1 q)"
    using Cons.IH[OF rest] Cons.prems(2,3) by simp
  have pn: "p \<notin> set ps" using Cons.prems(2) by simp
  show ?case using ih h pn by (auto split: if_splits)
qed

lemma remove_all_error:
  assumes "remove_all fs ps = Inl e"
  shows "e = FileNotFoundError \<or> e = NotADirectoryError \<or> e = IsADirectoryError"
  using assms
proof (induction ps arbitrary: fs)
  case Nil
  then show ?case by simp
next
  case (Cons p ps)
  then show ?case by (auto simp: and_then_Inl dest: os_remove_error)
qed

lemma remove_all_absent:
  assumes "p \<in> set ps" and "fs p = None" and "\<forall>p\<in>set ps. normpath p = p"
  shows "\<exists>e. remove_all fs ps = Inl e"
  using assms
proof (induction ps arbitrary: fs)
  case Nil
  then show ?case by simp
next
  case (Cons q ps)
  have nq: "normpath q = q" using Cons.prems(3) by simp
  show ?case
  proof (cases "os_remove fs q")
    case (Inl e)
    then show ?thesis by (simp add: and_then_def)
  next
    case (Inr fs1)
    note h = os_remove_Inr[OF Inr nq]
    have "p \<noteq> q" using h(1) Cons.prems(2) by auto
    then have "p \<in> set ps" using Cons.prems(1) by simp
    moreover have "fs1 p = None" using h(2) Cons.prems(2) by simp
    ultimately have "\<exists>e. remove_all fs1 ps = Inl e"
      using Cons.IH Cons.prems(3) by simp
    then show ?thesis using Inr by (simp add: and_then_def)
  qed
qed

lemma useless_files_plain:
  "distinct useless_files" "\<forall>p\<in>set useless_files. normpath p = p"
  by (simp_all add: useless_files_def normpath_def)


lemma os_mkdir_Inr:
  assumes "os_mkdir fs p = Inr fs'"
  shows "fs' = fs(normpath p \<mapsto> Dir)" and "fs (normpath p) = None"
  using assms by (auto simp: os_mkdir_def and_then_Inr Let_def split: if_splits)

lemma os_makedirs_keeps:
  "os_makedirs fs p = Inr fs' \<Longrightarrow> fs q \<noteq> None \<Longrightarrow> fs' q = fs q"
proof (induction fs p arbitrary: fs' rule: os_makedirs.induct)
  case (1 fs p)
  show ?case
  proof (cases "dirname p \<noteq> [] \<and> \<not> os_path_exists fs (dirname p)")
    case True
    with "1.prems"(1) obtain fs1 where
      a: "os_makedirs fs (dirname p) = Inr fs1" and b: "os_mkdir fs1 p = Inr fs'"
      by (subst (asm) os_makedirs.simps) (auto simp: and_then_Inr)
    have "fs1 q = fs q" using "1.IH"[OF True a "1.prems"(2)] .
    moreover have "fs' q = fs1 q"
      using os_mkdir_Inr[OF b] "1.prems"(2) calculation by auto
    ultimately show ?thesis by simp
  next
    case False
    with "1.prems"(1) have b: "os_mkdir fs p = Inr fs'"
      by (subst (asm) os_makedirs.simps) auto
    show ?thesis using os_mkdir_Inr[OF b] "1.prems"(2) by auto
  qed
qed

lemma open_wb_Inr:
  assumes "open_wb fs p bytes = Inr fs'"
  shows "fs' = fs(normpath p \<mapsto> File bytes)"
  using assms
  by (auto simp: open_wb_def and_then_Inr Let_def split: option.splits node.splits)

lemma extract_member_Inr:
  assumes "extract_member fs d m = Inr fs'"
  shows "fs' (normpath (d @ ''/'' @ fst m)) = Some (File (snd m))"
    and "q \<noteq> normpath (d @ ''/'' @ fst m) \<Longrightarrow> fs q \<noteq> None \<Longrightarrow> fs' q = fs q"
proof -
  let ?t = "d @ ''/'' @ fst m"
  have "and_then
          (if dirname ?t \<noteq> [] \<and> \<not> os_path_exists fs (dirname ?t)
           then os_makedirs fs (dirname ?t) else Inr fs)
          (\<lambda>fs'. open_wb fs' ?t (snd m)) = Inr fs'"
    using assms unfolding extract_member_def Let_def .
  then obtain fs1 where
    a: "(if dirname ?t \<noteq> [] \<and> \<not> os_path_exists fs (dirname ?t)
         then os_makedirs fs (dirname ?t) else Inr fs) = Inr fs1"
    and b: "open_wb fs1 ?t (snd m) = Inr fs'"
    unfolding and_then_Inr by blast
  have keep: "fs1 q = fs q" if "fs q \<noteq> None" for q
  proof (cases "dirname ?t \<noteq> [] \<and> \<not> os_path_exists fs (dirname ?t)")
    case True
    have "os_makedirs fs (dirname ?t) = Inr fs1" using a unfolding if_P[OF True] .
    from os_makedirs_keeps[OF this that] show ?thesis .
  next
    case False
    have "Inr fs = (Inr fs1 :: error + filesystem)" using a unfolding if_not_P[OF False] .
    then show ?thesis by simp
  qed
  show "fs' (normpath ?t) = Some (File (snd m))" using open_wb_Inr[OF b] by simp
  show "fs' q = fs q" if "q \<noteq> normpath ?t" "fs q \<noteq> None"
    using open_wb_Inr[OF b] keep that by simp
qed

lemma extract_members_keeps:
  assumes "extract_members fs d ms = Inr fs'" and "fs q \<noteq> None"
    and "q \<notin> (\<lambda>m. normpath (d @ ''/'' @ fst m)) ` set ms"
  shows "fs' q = fs q"
  using assms
proof (induction ms arbitrary: fs)
  case Nil
  then show ?case by simp
next
  case (Cons m ms)
  from Cons.prems(1) obtain fs1 where
    a: "extract_member fs d m = Inr fs1" and b: "extract_members fs1 d ms = Inr fs'"
    by (auto simp: and_then_Inr)
  have 1: "fs1 q = fs q" using extract_member_Inr(2)[OF a] Cons.prems(2,3) by auto
  then have "fs' q = fs1 q" using Cons.IH[OF b] Cons.prems(2,3) by auto
  then show ?case using 1 by simp
qed

lemma extract_members_Inr:
  assumes "extract_members fs d ms = Inr fs'"
    and "distinct (map (\<lambda>m. normpath (d @ ''/'' @ fst m)) ms)"
    and "m \<in> set ms"
  shows "fs' (normpath (d @ ''/'' @ fst m)) = Some (File (snd m))"
  using assms
proof (induction ms arbitrary: fs)
  case Nil
  then show ?case by simp
next
  case (Cons x ms)
  from Cons.prems(1) obtain fs1 where
    a: "extract_member fs d x = Inr fs1" and b: "extract_members fs1 d ms = Inr fs'"
    by (auto simp: and_then_Inr)
  show ?case
  proof (cases "m \<in> set ms")
    case True
    then show ?thesis using Cons.IH[OF b] Cons.prems(2) by simp
  next
    case False
    then have mx: "m = x" using Cons.prems(3) by simp
    have w: "fs1 (normpath (d @ ''/'' @ fst x)) = Some (File (snd x))"
      using extract_member_Inr(1)[OF a] .
    have "normpath (d @ ''/'' @ fst x) \<notin> (\<lambda>m. normpath (d @ ''/'' @ fst m)) ` set ms"
      using Cons.prems(2) by auto
    from extract_members_keeps[OF b _ this] w show ?thesis by (simp add: mx)
  qed
qed

lemma data_dir_target: "normpath (''data/ECG5000'' @ ''/'' @ n) = ''data/ECG5000/'' @ n"
  by (simp add: normpath_def)

lemma fetch_and_unzipE:
  assumes "fetch_and_unzip L fs = Inr fs1"
  obtains chunks members fsz where
    "lib_get L ''http://www.timeseriesclassification.com/Downloads/ECG5000.zip'' 128 = Some chunks"
    "lib_unzip L (concat chunks) = Some members"
    "extract_members fsz ''data/ECG5000'' members = Inr fs1"
proof -
  from assms obtain fs0 fsz where
    d: "download_url L fs0 ''http://www.timeseriesclassification.com/Downloads/ECG5000.zip''
          ''data/ECG5000.zip'' = Inr fsz"
    and x: "extractall L fsz ''data/ECG5000.zip'' ''data/ECG5000'' = Inr fs1"
    unfolding fetch_and_unzip_def and_then_Inr by blast
  from d obtain chunks where
    g: "lib_get L ''http://www.timeseriesclassification.com/Downloads/ECG5000.zip'' 128 = Some chunks"
    and w: "open_wb fs0 ''data/ECG5000.zip'' (concat chunks) = Inr fsz"
    by (auto simp: download_url_def Let_def split: option.splits)
  have z: "fsz ''data/ECG5000.zip'' = Some (File (concat chunks))"
    using open_wb_Inr[OF w] by (simp add: normpath_def)
  from x z obtain members where
    "lib_unzip L (concat chunks) = Some members"
    "extract_members fsz ''data/ECG5000'' members = Inr fs1"
    by (auto simp: extractall_def normpath_def split: option.splits)
  with g show ?thesis using that by blast
qed

lemmas example_world_defs = fetch_and_unzip_def os_path_exists_def os_mkdir_def normpath_def
  parent_check_def dirname_def download_url_def open_wb_def extractall_def
  extract_member_def and_then_def example_fs_def example_libs_def example_members_def Let_def
  extractor_def removing_useless_files_def useless_files_def os_remove_def

lemma example_fetch:
  "\<exists>fs1. fetch_and_unzip example_libs example_fs = Inr fs1
     \<and> fs1 ''data/ECG5000/ECG5000_TRAIN.txt'' = Some (File example_train_txt)"
  by (simp add: example_world_defs)

lemma example_fetch_short:
  "\<exists>fs1. fetch_and_unzip example_libs_short example_fs = Inr fs1
     \<and> fs1 ''data/ECG5000/ECG5000.txt'' = None"
  by (simp add: example_world_defs example_libs_short_def)

lemma example_extractor:
  "\<exists>fs2. extractor example_libs example_fs = Inr fs2"
  by (simp add: example_world_defs)

section \<open>Facts about the loader and the whole run\<close>











lemma np_save_Inr:
  assumes "np_save L fs p arr = Inr fs'"
  shows "fs' = fs(normpath p \<mapsto> File (lib_save L arr))"
  using assms open_wb_Inr by (simp add: np_save_def)

lemma serializer_Inr:
  assumes "serializer L fs A = Inr fs'"
  shows "fs' ''data/ECG5000/numpy/X_train.npy'' = Some (File (lib_save L (Matrix (X_train A))))
       \<and> fs' ''data/ECG5000/numpy/y_train.npy'' = Some (File (lib_save L (Vector (y_train A))))
       \<and> fs' ''data/ECG5000/numpy/X_val.npy'' = Some (File (lib_save L (Matrix (X_val A))))
       \<and> fs' ''data/ECG5000/numpy/y_val.npy'' = Some (File (lib_save L (Vector (y_val A))))
       \<and> fs' ''data/ECG5000/numpy/X_val_p.npy'' = Some (File (lib_save L (Matrix (X_val_p A))))
       \<and> fs' ''data/ECG5000/numpy/y_val_p.npy'' = Some (File (lib_save L (Vector (y_val_p A))))
       \<and> fs' ''data/ECG5000/numpy/X_test.npy'' = Some (File (lib_save L (Matrix (X_test A))))
       \<and> fs' ''data/ECG5000/numpy/y_test.npy'' = Some (File (lib_save L (Vector (y_test A))))"
proof -
  from assms obtain f1 f2 f3 f4 f5 f6 f7 where
    s: "np_save L fs ''./data/ECG5000/numpy/X_train.npy'' (Matrix (X_train A)) = Inr f1"
       "np_save L f1 ''./data/ECG5000/numpy/y_train.npy'' (Vector (y_train A)) = Inr f2"
       "np_save L f2 ''./data/ECG5000/numpy/X_val.npy'' (Matrix (X_val A)) = Inr f3"
       "np_save L f3 ''./data/ECG5000/numpy/y_val.npy'' (Vector (y_val A)) = Inr f4"
       "np_save L f4 ''./data/ECG5000/numpy/X_val_p.npy'' (Matrix (X_val_p A)) = Inr f5"
       "np_save L f5 ''./data/ECG5000/numpy/y_val_p.npy'' (Vector (y_val_p A)) = Inr f6"
       "np_save L f6 ''./data/ECG5000/numpy/X_test.npy'' (Matrix (X_test A)) = Inr f7"
       "np_save L f7 ''./data/ECG5000/numpy/y_test.npy'' (Vector (y_test A)) = Inr fs'"
    unfolding serializer_def and_then_Inr by blast
  have "fs' = fs(''data/ECG5000/numpy/X_train.npy'' \<mapsto> File (lib_save L (Matrix (X_train A))),
                ''data/ECG5000/numpy/y_train.npy'' \<mapsto> File (lib_save L (Vector (y_train A))),
                ''data/ECG5000/numpy/X_val.npy'' \<mapsto> File (lib_save L (Matrix (X_val A))),
                ''data/ECG5000/numpy/y_val.npy'' \<mapsto> File (lib_save L (Vector (y_val A))),
                ''data/ECG5000/numpy/X_val_p.npy'' \<mapsto> File (lib_save L (Matrix (X_val_p A))),
                ''data/ECG5000/numpy/y_val_p.npy'' \<mapsto> File (lib_save L (Vector (y_val_p A))),
                ''data/ECG5000/numpy/X_test.npy'' \<mapsto> File (lib_save L (Matrix (X_test A))),
                ''data/ECG5000/numpy/y_test.npy'' \<mapsto> File (lib_save L (Vector (y_test A))))"
    using s[THEN np_save_Inr] by (simp add: normpath_def)
  then show ?thesis by simp
qed

lemma data_preparation_Inr:
  assumes "data_preparation L a fs = Inr fs'"
  shows "\<exists>fs2 df P.
           loader L fs2 = Inr df
         \<and> partitioner (lib_permutation L) (lib_stratified L) (rows df)
              (perc_tr_n a) (perc_val_n a) (perc_val_an a) = Inr P
         \<and> serializer L fs2 (assemble P) = Inr fs'"
  using assms unfolding data_preparation_def and_then_Inr by blast

lemma example_whole_run:
  "map_sum id (\<lambda>fs'. map fs' [''data/ECG5000/numpy/X_train.npy'',
                                  ''data/ECG5000/numpy/y_train.npy'',
                                  ''data/ECG5000/numpy/X_val.npy'',
                                  ''data/ECG5000/numpy/y_val.npy'',
                                  ''data/ECG5000/numpy/X_val_p.npy'',
                                  ''data/ECG5000/numpy/y_val_p.npy'',
                                  ''data/ECG5000/numpy/X_test.npy'',
                                  ''data/ECG5000/numpy/y_test.npy'',
                                  ''data/ECG5000.zip''])
     (data_preparation example_libs example_args example_fs)
   = Inr [Some (File ''XX''), Some (File ''yy''), Some (File ''XXX''), Some (File ''yyy''),
          Some (File ''X''), Some (File ''y''), Some (File ''XXX''), Some (File ''yyy''), None]"
  by code_simp

section \<open>The partitions\<close>

text \<open>
  Claim C2. Whenever the partitioner returns, whatever the three percentages, the normal
  rows of the table are exactly the rows of \<open>X_train_n\<close>, \<open>X_val_n\<close> and \<open>X_test_n\<close> taken
  together, and the anomalous rows are exactly those of \<open>X_val_a\<close> and \<open>X_test_a\<close>: as
  multisets of rows, so that no row is lost and none is taken twice, and the sizes add up.
\<close>

theorem splits_partition_their_inputs:
  assumes "is_permutation permutation" and "is_stratified stratified"
    and "partitioner permutation stratified df p_tr p_val p_an = Inr P"
  shows "mset (X_train_n P) + mset (X_val_n P) + mset (X_test_n P) = mset (normal df)
       \<and> length (X_train_n P) + length (X_val_n P) + length (X_test_n P) = length (normal df)
       \<and> mset (X_val_a P) + mset (X_test_a P) = mset (anomaly df)
       \<and> length (X_val_a P) + length (X_test_a P) = length (anomaly df)
       \<and> mset (normal df) + mset (anomaly df) = mset df"
proof -
  note n = normal_parts(4,5)[OF assms(1,3)]
  note a = anomalous_parts(4,5)[OF assms(2,3)]
  have all: "mset (normal df) + mset (anomaly df) = mset df"
    unfolding normal_def anomaly_def by (induction df) auto
  show ?thesis using n a all by blast
qed

theorem splits_partition_their_inputs_witness:
  "is_permutation example_permutation \<and> is_stratified example_stratified
   \<and> partitioner example_permutation example_stratified example_rows (1/2) (1/2) (1/2)
       = Inr example_partitions
   \<and> length (X_train_n example_partitions) + length (X_val_n example_partitions)
       + length (X_test_n example_partitions) = 4
   \<and> length (normal example_rows) = 4
   \<and> length (X_val_a example_partitions) + length (X_test_a example_partitions) = 4
   \<and> mset (X_val_a example_partitions) + mset (X_test_a example_partitions)
       = mset (anomaly example_rows)"
  using splits_partition_their_inputs[OF example_orderings example_run] example_orderings example_run
  by (simp add: example_partitions_def)

text \<open>
  Claim C3. Whenever the partitioner returns, every row of the training partition is a
  row of the table whose label is 1, and the saved label vector \<open>y_train\<close> holds no
  other value.
\<close>

theorem train_only_normal:
  assumes "is_permutation permutation"
    and "partitioner permutation stratified df p_tr p_val p_an = Inr P"
  shows "(\<forall>r \<in> set (X_train_n P). r \<in> set df \<and> col0 r = Num 1)
       \<and> (\<forall>c \<in> set (y_train (assemble P)). c = Num 1)
       \<and> length (filter (\<lambda>c. c \<noteq> Num 1) (y_train (assemble P))) = 0"
proof -
  have "set (X_train_n P) \<subseteq> set (normal df)"
    using normal_parts(1)[OF assms] .
  then have 1: "\<forall>r \<in> set (X_train_n P). r \<in> set df \<and> col0 r = Num 1"
    by (auto simp: normal_def)
  then have 2: "\<forall>c \<in> set (y_train (assemble P)). c = Num 1"
    by (auto simp: assemble_def)
  then have 3: "length (filter (\<lambda>c. c \<noteq> Num 1) (y_train (assemble P))) = 0"
    by (simp add: filter_empty_conv)
  show ?thesis using 1 2 3 by blast
qed

theorem train_only_normal_witness:
  "is_permutation example_permutation
   \<and> partitioner example_permutation example_stratified example_rows (1/2) (1/2) (1/2)
       = Inr example_partitions
   \<and> y_train (assemble example_partitions) = [Num 1, Num 1]
   \<and> list_all (\<lambda>r. col0 r = Num 1) (X_train_n example_partitions)"
  using train_only_normal[OF example_orderings(1) example_run] example_orderings(1) example_run
  by (simp add: example_partitions_def assemble_def)


text \<open>
  Claim C1. In a run that returns, the count \<open>n_anol\<close> is what Python's floats make of
  \<^verbatim>\<open>len(X_train_n) * perc_val_an / (1 - perc_val_an)\<close>, the share of the anomalous rows
  meant for validation is \<open>n_anol / |anomaly|\<close>, and the split of the anomalous rows gets
  one minus that share as its test size: the test part has the ceiling of the test size
  times \<open>|anomaly|\<close> rows, the validation part the other ones. The formula is the solution
  of \<open>x / (|X_train_n| + x) = perc_val_an\<close>, in exact arithmetic: the percentage is taken
  relative to the training set.
\<close>

theorem anomaly_count_relative_to_training:
  assumes "is_permutation permutation" and "is_stratified stratified"
    and "partitioner permutation stratified df p_tr p_val p_an = Inr P"
  shows "\<exists>l m n share t v.
           int_to_float (length (X_train_n P)) = Inr l
         \<and> fsub (Fin 1) (py_float p_an) \<noteq> Fin 0
         \<and> n = fdiv (fmul l (py_float p_an)) (fsub (Fin 1) (py_float p_an))
         \<and> n_anol (length (X_train_n P)) (py_float p_an) = Inr n
         \<and> int_to_float (length (anomaly df)) = Inr m \<and> m \<noteq> Fin 0
         \<and> share = fdiv n m
         \<and> perc_anol_val_a n (length (anomaly df)) = Inr share
         \<and> fsub (Fin 1) share = Fin t \<and> 0 < t \<and> t < 1
         \<and> fmul (Fin t) m = Fin v
         \<and> int (length (X_test_a P)) = \<lceil>v\<rceil>
         \<and> length (X_val_a P) = length (anomaly df) - length (X_test_a P)
         \<and> 0 < length (X_train_n P)
         \<and> (\<forall>a. py_float p_an = Fin a \<longrightarrow>
               a \<noteq> 1
             \<and> (of_nat (length (X_train_n P)) * a / (1 - a))
                 / (of_nat (length (X_train_n P)) + of_nat (length (X_train_n P)) * a / (1 - a))
               = a)"
proof -
  from assms(2,3) obtain n f t m v where
    n: "n_anol (length (X_train_n P)) (py_float p_an) = Inr n" and
    fr: "perc_anol_val_a n (length (anomaly df)) = Inr (Fin f)" and
    t: "fsub (Fin 1) (Fin f) = Fin t" "0 < t" "t < 1" and
    m: "int_to_float (length (anomaly df)) = Inr m" "fmul (Fin t) m = Fin v"
      "int (length (X_test_a P)) = \<lceil>v\<rceil>"
    by (rule anomalous_split)
  from n_anol_Inr[OF n] obtain l where
    l: "int_to_float (length (X_train_n P)) = Inr l" "fsub (Fin 1) (py_float p_an) \<noteq> Fin 0"
      "n = fdiv (fmul l (py_float p_an)) (fsub (Fin 1) (py_float p_an))" by blast
  from perc_anol_val_a_Inr(1)[OF fr] m(1) have m': "m \<noteq> Fin 0" "Fin f = fdiv n m" by auto
  have va: "length (X_val_a P) = length (anomaly df) - length (X_test_a P)"
    using anomalous_parts(5)[OF assms(2,3)] by simp
  have npos: "0 < length (X_train_n P)" using normal_parts(6)[OF assms(1,3)] .
  have ident: "a \<noteq> 1
      \<and> (of_nat (length (X_train_n P)) * a / (1 - a))
           / (of_nat (length (X_train_n P)) + of_nat (length (X_train_n P)) * a / (1 - a)) = a"
    if a: "py_float p_an = Fin a" for a :: rat
  proof -
    define k :: rat where "k = of_nat (length (X_train_n P))"
    have kpos: "0 < k" using npos by (simp add: k_def)
    have "round_double (1 - a) \<noteq> Fin 0" using l(2) a by simp
    then have a1: "a \<noteq> 1" by (auto simp: round_double_def)
    then have d: "1 - a \<noteq> 0" by simp
    have "k + k * a / (1 - a) = k / (1 - a)" using d by (simp add: field_simps)
    then have "(k * a / (1 - a)) / (k + k * a / (1 - a)) = a" using d kpos by simp
    then show ?thesis using a1 by (simp add: k_def)
  qed
  show ?thesis
    using l n m(1) m' fr t m(2,3) va npos ident by blast
qed

theorem anomaly_count_relative_to_training_witness:
  "is_permutation example_permutation \<and> is_stratified example_stratified
   \<and> partitioner example_permutation example_stratified example_rows (1/2) (1/2) (1/2)
       = Inr example_partitions
   \<and> length (X_train_n example_partitions) = 2
   \<and> length (anomaly example_rows) = 4
   \<and> n_anol 2 (py_float (1/2)) = Inr (Fin 2)
   \<and> perc_anol_val_a (Fin 2) 4 = Inr (Fin (1/2))
   \<and> length (X_test_a example_partitions) = 2
   \<and> length (X_val_a example_partitions) = 4 - 2
   \<and> (2 * (1/2) / (1 - 1/2)) / (2 + 2 * (1/2) / (1 - 1/2)) = (1/2 :: rat)"
proof -
  have a: "length (anomaly example_rows) = 4"
    by (simp add: example_rows_def anomaly_def)
  show ?thesis
    using anomaly_count_relative_to_training[OF example_orderings example_run]
      example_orderings example_run example_n_anol a
    by (simp add: example_partitions_def)
qed

text \<open>
  Claim C4. Whenever the partitioner returns, the rows of \<open>val_p\<close>, each taken as its
  features with its label, are the first rows of \<open>val\<close>, and as a set of rows they are a
  strict subset of those of \<open>val\<close>: \<open>val\<close> has an anomalous row, which no row of \<open>val_p\<close>
  equals.
\<close>

theorem val_p_strict_subset_of_val:
  assumes "is_permutation permutation" and "is_stratified stratified"
    and "partitioner permutation stratified df p_tr p_val p_an = Inr P"
  shows "zip (X_val_p (assemble P)) (y_val_p (assemble P))
           = take (length (X_val_p (assemble P))) (zip (X_val (assemble P)) (y_val (assemble P)))
       \<and> set (zip (X_val_p (assemble P)) (y_val_p (assemble P)))
           \<subset> set (zip (X_val (assemble P)) (y_val (assemble P)))
       \<and> length (X_val_p (assemble P)) < length (X_val (assemble P))"
proof -
  let ?vn = "X_val_n P" and ?va = "X_val_a P"
  let ?zn = "zip (map rest ?vn) (map col0 ?vn)" and ?za = "zip (map rest ?va) (map col0 ?va)"
  have z: "zip (X_val (assemble P)) (y_val (assemble P)) = ?zn @ ?za"
    by (simp add: assemble_def)
  have zp: "zip (X_val_p (assemble P)) (y_val_p (assemble P)) = ?zn"
    by (simp add: assemble_def)
  have pre: "?zn = take (length (X_val_p (assemble P))) (?zn @ ?za)"
    by (simp add: assemble_def)
  obtain r where r: "r \<in> set ?va"
    using anomalous_parts(3)[OF assms(2,3)] by (cases ?va) auto
  then have ra: "col0 r \<noteq> Num 1"
    using anomalous_parts(1)[OF assms(2,3)] by (auto simp: anomaly_def)
  have inza: "(rest r, col0 r) \<in> set ?za"
    using r by (auto simp: zip_map_same)
  have "\<forall>q \<in> set ?zn. snd q = Num 1"
    using normal_parts(2)[OF assms(1,3)] by (auto simp: zip_map_same normal_def)
  then have notin: "(rest r, col0 r) \<notin> set ?zn" using ra by auto
  have strict: "set ?zn \<subset> set (?zn @ ?za)" using inza notin by auto
  have len: "length (X_val_p (assemble P)) < length (X_val (assemble P))"
    using r by (cases ?va) (auto simp: assemble_def)
  show ?thesis using pre strict len unfolding z zp by blast
qed

theorem val_p_strict_subset_of_val_witness:
  "is_permutation example_permutation \<and> is_stratified example_stratified
   \<and> partitioner example_permutation example_stratified example_rows (1/2) (1/2) (1/2)
       = Inr example_partitions
   \<and> zip (X_val_p (assemble example_partitions)) (y_val_p (assemble example_partitions))
       = [([Num 13], Num 1)]
   \<and> zip (X_val (assemble example_partitions)) (y_val (assemble example_partitions))
       = [([Num 13], Num 1), ([Num 22], Num 2), ([Num 23], Num 2)]
   \<and> set (zip (X_val_p (assemble example_partitions)) (y_val_p (assemble example_partitions)))
       \<subset> set (zip (X_val (assemble example_partitions)) (y_val (assemble example_partitions)))"
  using val_p_strict_subset_of_val[OF example_orderings example_run]
    example_orderings example_run
  by (simp add: example_partitions_def assemble_def)




text \<open>
  Claim C10. Whenever the partitioner returns, \<open>val\<close> is \<open>val_n\<close> followed by \<open>val_a\<close> and
  \<open>test\<close> is \<open>test_n\<close> followed by \<open>test_a\<close>, features and labels alike, so that a position
  holds the label 1 exactly when it lies before the first anomalous row.
\<close>

theorem normal_rows_come_first:
  assumes "is_permutation permutation" and "is_stratified stratified"
    and "partitioner permutation stratified df p_tr p_val p_an = Inr P"
  shows "X_val (assemble P) = map rest (X_val_n P) @ map rest (X_val_a P)
       \<and> y_val (assemble P) = map col0 (X_val_n P) @ map col0 (X_val_a P)
       \<and> X_test (assemble P) = map rest (X_test_n P) @ map rest (X_test_a P)
       \<and> y_test (assemble P) = map col0 (X_test_n P) @ map col0 (X_test_a P)
       \<and> (\<forall>i<length (y_val (assemble P)).
             (y_val (assemble P) ! i = Num 1) = (i < length (X_val_n P)))
       \<and> (\<forall>i<length (y_test (assemble P)).
             (y_test (assemble P) ! i = Num 1) = (i < length (X_test_n P)))"
proof -
  note n = normal_parts[OF assms(1,3)]
  note a = anomalous_parts(1,2)[OF assms(2,3)]
  have order: "\<forall>i<length (map col0 ns @ map col0 as).
      ((map col0 ns @ map col0 as) ! i = Num 1) = (i < length ns)"
    if "set ns \<subseteq> set (normal df)" "set as \<subseteq> set (anomaly df)" for ns as
  proof (intro allI impI)
    fix i assume i: "i < length (map col0 ns @ map col0 as)"
    show "((map col0 ns @ map col0 as) ! i = Num 1) = (i < length ns)"
    proof (cases "i < length ns")
      case True
      then have "ns ! i \<in> set (normal df)" using that(1) by auto
      then show ?thesis using True by (simp add: nth_append normal_def)
    next
      case False
      then have "i - length ns < length as" using i by simp
      then have "as ! (i - length ns) \<in> set (anomaly df)" using that(2) by auto
      then show ?thesis using False i by (simp add: nth_append anomaly_def)
    qed
  qed
  have v: "\<forall>i<length (y_val (assemble P)).
             (y_val (assemble P) ! i = Num 1) = (i < length (X_val_n P))"
    using order[OF n(2) a(1)] by (simp add: assemble_def)
  have t: "\<forall>i<length (y_test (assemble P)).
             (y_test (assemble P) ! i = Num 1) = (i < length (X_test_n P))"
    using order[OF n(3) a(2)] by (simp add: assemble_def)
  show ?thesis using v t by (simp add: assemble_def)
qed

theorem normal_rows_come_first_witness:
  "is_permutation example_permutation \<and> is_stratified example_stratified
   \<and> partitioner example_permutation example_stratified example_rows (1/2) (1/2) (1/2)
       = Inr example_partitions
   \<and> y_val (assemble example_partitions) = [Num 1, Num 2, Num 2]
   \<and> length (X_val_n example_partitions) = 1
   \<and> y_test (assemble example_partitions) = [Num 1, Num 2, Num 2]
   \<and> X_test (assemble example_partitions) = [[Num 12], [Num 20], [Num 21]]"
  using normal_rows_come_first[OF example_orderings example_run]
    example_orderings example_run
  by (simp add: example_partitions_def assemble_def)

section \<open>The boundaries of \<open>perc_val_an\<close>\<close>

text \<open>
  Claim C6, as stated, promises that a \<open>perc_val_an\<close> near 0 injects a near-zero number of
  anomalous rows. On the small table, at \<open>perc_val_an = 0.01\<close>, the derived share of the
  anomalous rows is a number strictly between 0 and 1, and yet the run raises and injects
  nothing: the validation part of the anomalous rows would be empty, which the splitting
  routine rejects.
\<close>

theorem near_zero_raises_counterexample:
  "partitioner example_permutation example_stratified example_rows (1/2) (1/2) (1/100)
     = Inl ValueError
   \<and> length (normal example_rows) = 4
   \<and> validate_shuffle_split 4 (fsub (Fin 1) (py_float (1/2))) = Inr (2, 2)
   \<and> n_anol 2 (py_float (1/100)) = Inr (Fin (5822835881852763 / 288230376151711744))
   \<and> length (anomaly example_rows) = 4
   \<and> perc_anol_val_a (Fin (5822835881852763 / 288230376151711744)) 4
       = Inr (Fin (5822835881852763 / 1152921504606846976))
   \<and> (0 :: rat) < 5822835881852763 / 1152921504606846976
   \<and> (5822835881852763 / 1152921504606846976 :: rat) < 1"
proof -
  have n: "length (normal example_rows) = 4" "length (anomaly example_rows) = 4"
    by (simp_all add: example_rows_def normal_def anomaly_def)
  show ?thesis using example_run_near_zero n by simp
qed

text \<open>
  Claim C6, amended. With \<open>n_tr\<close> the size of the training partition: when
  \<open>1 - perc_val_an\<close> is zero, when there is no anomalous row, or when the derived share
  \<open>n_anol / |anomaly|\<close>, as the code computes it, is not a number strictly between 0 and 1,
  the partitioner raises; what it raises is a \<^verbatim>\<open>ValueError\<close>, a \<^verbatim>\<open>ZeroDivisionError\<close>,
  an \<^verbatim>\<open>OverflowError\<close> or a \<^verbatim>\<open>TypeError\<close>, never a clamped split. A run that returns
  has injected at least one anomalous row into validation: for a \<open>perc_val_an\<close> near 0
  the partitioner injects few rows or raises, it never returns with none.
\<close>

theorem fraction_out_of_range_raises:
  assumes "is_permutation permutation" and "is_stratified stratified"
  shows
    "(\<forall>n_tr k.
        validate_shuffle_split (length (normal df)) (fsub (Fin 1) (py_float p_tr)) = Inr (n_tr, k)
        \<and> (fsub (Fin 1) (py_float p_an) = Fin 0
           \<or> anomaly df = []
           \<or> (\<forall>n share. n_anol n_tr (py_float p_an) = Inr n
                 \<and> perc_anol_val_a n (length (anomaly df)) = Inr share
                 \<longrightarrow> \<not> (\<exists>f. share = Fin f \<and> 0 < f \<and> f < 1)))
        \<longrightarrow> (\<exists>e. partitioner permutation stratified df p_tr p_val p_an = Inl e))
     \<and> (\<forall>e. partitioner permutation stratified df p_tr p_val p_an = Inl e
            \<longrightarrow> e = ValueError \<or> e = ZeroDivisionError \<or> e = OverflowError \<or> e = TypeError)
     \<and> (\<forall>P. partitioner permutation stratified df p_tr p_val p_an = Inr P
            \<longrightarrow> 1 \<le> length (X_val_a P)
              \<and> length (X_val_a P) + length (X_test_a P) = length (anomaly df))"
proof -
  let ?run = "partitioner permutation stratified df p_tr p_val p_an"
  have raise: "\<exists>e. ?run = Inl e"
    if v: "validate_shuffle_split (length (normal df)) (fsub (Fin 1) (py_float p_tr))
             = Inr (n_tr, k)"
      and bad: "fsub (Fin 1) (py_float p_an) = Fin 0
           \<or> anomaly df = []
           \<or> (\<forall>n share. n_anol n_tr (py_float p_an) = Inr n
                 \<and> perc_anol_val_a n (length (anomaly df)) = Inr share
                 \<longrightarrow> \<not> (\<exists>f. share = Fin f \<and> 0 < f \<and> f < 1))"
    for n_tr k
  proof (cases ?run)
    case (Inl e)
    then show ?thesis by blast
  next
    case (Inr P)
    from Inr obtain val_n0 where
      s1: "train_test_split permutation (normal df) (fsub (Fin 1) (py_float p_tr))
             = Inr (X_train_n P, val_n0)"
      by (rule partitionerE)
    have "validate_shuffle_split (length (normal df)) (fsub (Fin 1) (py_float p_tr))
            = Inr (length (X_train_n P), length val_n0)"
      using train_test_split_parts(2)[OF assms(1) s1] .
    with v have ntr: "n_tr = length (X_train_n P)" by simp
    from assms(2) Inr obtain n f where
      n: "n_anol (length (X_train_n P)) (py_float p_an) = Inr n" and
      fr: "perc_anol_val_a n (length (anomaly df)) = Inr (Fin f)" and f: "0 < f" "f < 1"
      by (rule anomalous_split)
    have 1: "fsub (Fin 1) (py_float p_an) \<noteq> Fin 0" using n_anol_Inr[OF n] by blast
    have 2: "anomaly df \<noteq> []" using perc_anol_val_a_Inr(2)[OF fr] by simp
    have 3: "\<not> (\<forall>n share. n_anol n_tr (py_float p_an) = Inr n
                 \<and> perc_anol_val_a n (length (anomaly df)) = Inr share
                 \<longrightarrow> \<not> (\<exists>f. share = Fin f \<and> 0 < f \<and> f < 1))"
      using n fr f ntr by blast
    from bad 1 2 3 show ?thesis by blast
  qed
  have kinds: "e = ValueError \<or> e = ZeroDivisionError \<or> e = OverflowError \<or> e = TypeError"
    if "?run = Inl e" for e
    using partitioner_error[OF that] .
  have ok: "1 \<le> length (X_val_a P)
      \<and> length (X_val_a P) + length (X_test_a P) = length (anomaly df)"
    if "?run = Inr P" for P
  proof -
    have "X_val_a P \<noteq> []" using anomalous_parts(3)[OF assms(2) that] .
    then have "1 \<le> length (X_val_a P)" by (cases "X_val_a P") simp_all
    then show ?thesis using anomalous_parts(5)[OF assms(2) that] by simp
  qed
  show ?thesis using raise kinds ok by blast
qed

theorem fraction_out_of_range_raises_witness:
  "is_permutation example_permutation \<and> is_stratified example_stratified
   \<and> validate_shuffle_split (length (normal example_rows)) (fsub (Fin 1) (py_float (1/2)))
       = Inr (2, 2)
   \<and> fsub (Fin 1) (py_float 1) = Fin 0
   \<and> partitioner example_permutation example_stratified example_rows (1/2) (1/2) 1
       = Inl ZeroDivisionError
   \<and> partitioner example_permutation example_stratified example_rows (1/2) (1/2) (1/2)
       = Inr example_partitions
   \<and> 1 \<le> length (X_val_a example_partitions)
   \<and> length (X_val_a example_partitions) + length (X_test_a example_partitions) = 4"
proof -
  have n: "length (normal example_rows) = 4" "length (anomaly example_rows) = 4"
    by (simp_all add: example_rows_def normal_def anomaly_def)
  have z: "fsub (Fin 1) (py_float 1) = Fin 0" by code_simp
  have v: "validate_shuffle_split (length (normal example_rows)) (fsub (Fin 1) (py_float (1/2)))
       = Inr (2, 2)"
    using example_run_near_zero(4) n by simp
  note t1 = fraction_out_of_range_raises[OF example_orderings, of example_rows "1/2" 1 "1/2"]
  have a: "\<exists>e. partitioner example_permutation example_stratified example_rows (1/2) (1/2) 1
             = Inl e"
    using t1 v z by blast
  note t2 = fraction_out_of_range_raises[OF example_orderings, of example_rows "1/2" "1/2" "1/2"]
  have b: "1 \<le> length (X_val_a example_partitions)
     \<and> length (X_val_a example_partitions) + length (X_test_a example_partitions) = 4"
    using t2 example_run n by auto
  show ?thesis using a b v z example_run_one example_run example_orderings by simp
qed

section \<open>The extractor\<close>

text \<open>
  Claim C8. With the download argument set and the folder made, the archive fetched and
  unpacked: the members of the archive lie under \<^verbatim>\<open>data/ECG5000\<close> (each with its bytes
  when no two members share a name); if one of the six files of the list, the archive or
  one of the five named files, is absent then, the deletion raises and the whole run
  fails with that error; and when the extractor returns, each of the six was a file and
  is gone, and nothing else has changed.
\<close>

theorem extractor_deletes_without_checking:
  assumes "download a \<noteq> 0" and "fetch_and_unzip L fs = Inr fs1"
  shows "(\<exists>chunks members.
            lib_get L ''http://www.timeseriesclassification.com/Downloads/ECG5000.zip'' 128
              = Some chunks
          \<and> lib_unzip L (concat chunks) = Some members
          \<and> (distinct (map fst members) \<longrightarrow>
               (\<forall>m\<in>set members. fs1 (''data/ECG5000/'' @ fst m) = Some (File (snd m)))))
       \<and> ((\<exists>p\<in>set useless_files. fs1 p = None) \<longrightarrow>
            (\<exists>e. extractor L fs = Inl e \<and> data_preparation L a fs = Inl e
               \<and> (e = FileNotFoundError \<or> e = NotADirectoryError \<or> e = IsADirectoryError)))
       \<and> (\<forall>fs2. extractor L fs = Inr fs2 \<longrightarrow>
            (\<forall>p\<in>set useless_files. (\<exists>d. fs1 p = Some (File d)) \<and> fs2 p = None)
          \<and> (\<forall>q. q \<notin> set useless_files \<longrightarrow> fs2 q = fs1 q))"
proof -
  from assms(2) obtain chunks members fsz where
    g: "lib_get L ''http://www.timeseriesclassification.com/Downloads/ECG5000.zip'' 128 = Some chunks"
    and u: "lib_unzip L (concat chunks) = Some members"
    and x: "extract_members fsz ''data/ECG5000'' members = Inr fs1"
    by (rule fetch_and_unzipE)
  have all: "\<forall>m\<in>set members. fs1 (''data/ECG5000/'' @ fst m) = Some (File (snd m))"
    if dist: "distinct (map fst members)"
  proof
    fix m assume m: "m \<in> set members"
    have eq: "(\<lambda>m. normpath (''data/ECG5000'' @ ''/'' @ fst m))
                = (\<lambda>m :: path \<times> string. ''data/ECG5000/'' @ fst m)"
      by (rule ext) (rule data_dir_target)
    have "distinct (map ((@) ''data/ECG5000/'') (map fst members))"
      using dist by (simp only: distinct_map inj_on_def same_append_eq) simp
    then have "distinct (map (\<lambda>m. ''data/ECG5000/'' @ fst m) members)"
      by (simp only: map_map comp_def)
    then have "distinct (map (\<lambda>m. normpath (''data/ECG5000'' @ ''/'' @ fst m)) members)"
      by (simp only: eq)
    from extract_members_Inr[OF x this m]
    show "fs1 (''data/ECG5000/'' @ fst m) = Some (File (snd m))"
      by (simp only: data_dir_target)
  qed
  have ex: "extractor L fs = removing_useless_files fs1"
    using assms(2) by (simp add: extractor_def and_then_def)
  have run: "data_preparation L a fs = Inl e" if "extractor L fs = Inl e" for e
    using that assms(1) by (simp add: data_preparation_def and_then_def)
  have bad: "\<exists>e. extractor L fs = Inl e \<and> data_preparation L a fs = Inl e
               \<and> (e = FileNotFoundError \<or> e = NotADirectoryError \<or> e = IsADirectoryError)"
    if "\<exists>p\<in>set useless_files. fs1 p = None"
  proof -
    from that obtain p where p: "p \<in> set useless_files" "fs1 p = None" by blast
    from remove_all_absent[where fs = fs1 and p = p and ps = useless_files,
        OF p useless_files_plain(2)]
    obtain e where e: "removing_useless_files fs1 = Inl e"
      by (auto simp: removing_useless_files_def)
    then have "e = FileNotFoundError \<or> e = NotADirectoryError \<or> e = IsADirectoryError"
      using remove_all_error by (auto simp: removing_useless_files_def)
    then show ?thesis using e ex run by auto
  qed
  have good: "(\<forall>p\<in>set useless_files. (\<exists>d. fs1 p = Some (File d)) \<and> fs2 p = None)
          \<and> (\<forall>q. q \<notin> set useless_files \<longrightarrow> fs2 q = fs1 q)"
    if "extractor L fs = Inr fs2" for fs2
  proof -
    have "remove_all fs1 useless_files = Inr fs2"
      using that ex by (simp add: removing_useless_files_def)
    from remove_all_Inr[OF this useless_files_plain] show ?thesis .
  qed
  show ?thesis using g u all bad good by blast
qed


theorem extractor_deletes_without_checking_witness:
  "download example_args \<noteq> 0
   \<and> (\<exists>fs1. fetch_and_unzip example_libs example_fs = Inr fs1)
   \<and> (\<exists>fs2. extractor example_libs example_fs = Inr fs2
          \<and> fs2 ''data/ECG5000.zip'' = None
          \<and> fs2 ''data/ECG5000/ECG5000_TRAIN.arff'' = None
          \<and> fs2 ''data/ECG5000/ECG5000.txt'' = None
          \<and> fs2 ''data/ECG5000/ECG5000_TRAIN.txt'' = Some (File example_train_txt))
   \<and> (\<exists>fs1. fetch_and_unzip example_libs_short example_fs = Inr fs1
          \<and> fs1 ''data/ECG5000/ECG5000.txt'' = None)
   \<and> (\<exists>e. data_preparation example_libs_short example_args example_fs = Inl e)"
proof -
  have d: "download example_args \<noteq> 0" by (simp add: example_args_def)
  obtain fs1 where f: "fetch_and_unzip example_libs example_fs = Inr fs1"
    and tr: "fs1 ''data/ECG5000/ECG5000_TRAIN.txt'' = Some (File example_train_txt)"
    using example_fetch by blast
  obtain fs2 where x: "extractor example_libs example_fs = Inr fs2"
    using example_extractor by blast
  note t = extractor_deletes_without_checking[OF d f]
  have gone: "\<forall>p\<in>set useless_files. fs2 p = None"
    and kept: "\<forall>q. q \<notin> set useless_files \<longrightarrow> fs2 q = fs1 q"
    using t x by blast+
  have a: "fs2 ''data/ECG5000.zip'' = None" "fs2 ''data/ECG5000/ECG5000_TRAIN.arff'' = None"
    "fs2 ''data/ECG5000/ECG5000.txt'' = None"
    using gone by (simp_all add: useless_files_def)
  have b: "fs2 ''data/ECG5000/ECG5000_TRAIN.txt'' = Some (File example_train_txt)"
    using kept tr by (simp add: useless_files_def)
  obtain fs1s where fs: "fetch_and_unzip example_libs_short example_fs = Inr fs1s"
    and ab: "fs1s ''data/ECG5000/ECG5000.txt'' = None"
    using example_fetch_short by blast
  have "\<exists>p\<in>set useless_files. fs1s p = None"
    using ab by (simp add: useless_files_def)
  then have c: "\<exists>e. data_preparation example_libs_short example_args example_fs = Inl e"
    using extractor_deletes_without_checking[OF d fs] by blast
  show ?thesis using d f x a b fs ab c by blast
qed

section \<open>The loader\<close>



end
